theory Spec2Isabelle
  imports Main "HOL-Library.Word" "HOL-Library.Char_ord" "HOL-Library.List_Lexorder"
    "HOL-Library.Finite_Map"
begin

unbundle bit_operations_syntax

section \<open>Guest SDK: the HTTP client of agfs_http.h\<close>

subsection \<open>Library functions the header relies on\<close>

text \<open>
  Modelled from the spec: \<open>agfs_types.h\<close>, which declares \<open>Error\<close> and
  \<open>Result<T>\<close>, is not among the sources. Only the two constructors the code under
  study calls are kept: \<open>Error::not_found()\<close> and \<open>Error::other(message)\<close>.
  A \<open>Result<T>\<close> is an error or a value.
\<close>

datatype Error = Error_not_found | Error_other string

type_synonym 'a Result = "Error + 'a"

text \<open>\<open>std::to_string(int)\<close>: the decimal digits, with a minus sign below zero.\<close>

fun decimal :: "nat \<Rightarrow> string" where
  "decimal n =
     (if n < 10 then [''0123456789'' ! n]
      else decimal (n div 10) @ [''0123456789'' ! (n mod 10)])"

declare decimal.simps [simp del]

definition to_string :: "int \<Rightarrow> string" where
  "to_string i = (if i < 0 then CHR ''-'' # decimal (nat (- i)) else decimal (nat i))"

text \<open>
  \<open>std::string::c_str()\<close> read as a C string: the characters before the first NUL.
\<close>

definition c_str :: "string \<Rightarrow> string" where
  "c_str s = takeWhile (\<lambda>c. c \<noteq> CHR 0x00) s"

text \<open>
  \<open>std::string::find(needle, pos)\<close>: the lowest index at or after \<open>pos\<close> where
  \<open>needle\<close> starts; \<open>None\<close> is \<open>npos\<close>.
\<close>

fun find_at :: "string \<Rightarrow> string \<Rightarrow> nat \<Rightarrow> nat option" where
  "find_at needle [] i = (if needle = [] then Some i else None)"
| "find_at needle (c # cs) i =
     (if take (length needle) (c # cs) = needle then Some i
      else find_at needle cs (Suc i))"

definition str_find :: "string \<Rightarrow> string \<Rightarrow> nat \<Rightarrow> nat option" where
  "str_find s needle pos =
     (if length s < pos then None else find_at needle (drop pos s) pos)"

text \<open>\<open>std::string::substr(pos, n)\<close> for \<open>pos\<close> within the string.\<close>

definition substr :: "string \<Rightarrow> nat \<Rightarrow> nat \<Rightarrow> string" where
  "substr s pos n = take n (drop pos s)"

text \<open>
  \<open>std::atoi\<close>: leading white space, an optional sign, then decimal digits. The C
  standard leaves a value outside \<open>int\<close> undefined; here it is reduced modulo
  \<open>2 ^ 32\<close>.
\<close>

definition isspace :: "char \<Rightarrow> bool" where
  "isspace c \<longleftrightarrow> c \<in> {CHR '' '', CHR 0x09, CHR 0x0A, CHR 0x0B, CHR 0x0C, CHR 0x0D}"

definition isdigit :: "char \<Rightarrow> bool" where
  "isdigit c \<longleftrightarrow> CHR ''0'' \<le> c \<and> c \<le> CHR ''9''"

fun atoi_digits :: "string \<Rightarrow> int \<Rightarrow> int" where
  "atoi_digits [] acc = acc"
| "atoi_digits (c # cs) acc =
     (if isdigit c then atoi_digits cs (10 * acc + (of_char c - 48)) else acc)"

definition atoi :: "string \<Rightarrow> 32 word" where
  "atoi s =
     (case dropWhile isspace s of
        [] \<Rightarrow> 0
      | c # cs \<Rightarrow>
          if c = CHR ''-'' then word_of_int (- atoi_digits cs 0)
          else if c = CHR ''+'' then word_of_int (atoi_digits cs 0)
          else word_of_int (atoi_digits (c # cs) 0))"

subsection \<open>HttpRequest\<close>

text \<open>
  The request builder. \<open>headers\<close> is a \<open>std::map<std::string, std::string>\<close>: its
  entries are kept sorted by key, one entry per key, which is the order its iterator
  visits them in. \<open>timeout\<close> is a C++ \<open>int\<close>, \<open>body\<close> a vector of bytes. The
  field \<open>method\<close> is \<open>method_name\<close> here.
\<close>

record HttpRequest =
  method_name :: string
  url :: string
  headers :: "(string \<times> string) list"
  body :: "8 word list"
  timeout :: "32 word"

text \<open>The default member initialisers: method \<open>GET\<close>, timeout \<open>30\<close> seconds.\<close>

definition HttpRequest_default :: HttpRequest where
  "HttpRequest_default =
     \<lparr>method_name = ''GET'', url = [], headers = [], body = [], timeout = 30\<rparr>"

definition HttpRequest_get :: "string \<Rightarrow> HttpRequest" where
  "HttpRequest_get u = HttpRequest_default\<lparr>method_name := ''GET'', url := u\<rparr>"

definition HttpRequest_post :: "string \<Rightarrow> HttpRequest" where
  "HttpRequest_post u = HttpRequest_default\<lparr>method_name := ''POST'', url := u\<rparr>"

definition HttpRequest_put :: "string \<Rightarrow> HttpRequest" where
  "HttpRequest_put u = HttpRequest_default\<lparr>method_name := ''PUT'', url := u\<rparr>"

definition HttpRequest_del :: "string \<Rightarrow> HttpRequest" where
  "HttpRequest_del u = HttpRequest_default\<lparr>method_name := ''DELETE'', url := u\<rparr>"

definition set_method :: "string \<Rightarrow> HttpRequest \<Rightarrow> HttpRequest" where
  "set_method m req = req\<lparr>method_name := m\<rparr>"

text \<open>\<open>headers[key] = value\<close> on the ordered map: replace the entry or insert it in order.\<close>

fun map_assign :: "string \<Rightarrow> string \<Rightarrow> (string \<times> string) list \<Rightarrow> (string \<times> string) list" where
  "map_assign k v [] = [(k, v)]"
| "map_assign k v ((k', v') # kvs) =
     (if k = k' then (k, v) # kvs
      else if k < k' then (k, v) # (k', v') # kvs
      else (k', v') # map_assign k v kvs)"

definition add_header :: "string \<Rightarrow> string \<Rightarrow> HttpRequest \<Rightarrow> HttpRequest" where
  "add_header key val req = req\<lparr>headers := map_assign key val (headers req)\<rparr>"

definition set_body :: "8 word list \<Rightarrow> HttpRequest \<Rightarrow> HttpRequest" where
  "set_body data req = req\<lparr>body := data\<rparr>"

text \<open>The overload taking a string assigns its characters as bytes.\<close>

definition set_body_string :: "string \<Rightarrow> HttpRequest \<Rightarrow> HttpRequest" where
  "set_body_string data req = req\<lparr>body := map of_char data\<rparr>"

definition set_timeout :: "32 word \<Rightarrow> HttpRequest \<Rightarrow> HttpRequest" where
  "set_timeout seconds req = req\<lparr>timeout := seconds\<rparr>"

text \<open>
  \<open>to_json\<close>: the two loops, then the concatenation in the order the source appends.
  Keys and values are copied as they are; the source does no escaping.
\<close>

fun headers_json :: "bool \<Rightarrow> (string \<times> string) list \<Rightarrow> string" where
  \<open>headers_json first [] = []\<close>
| \<open>headers_json first ((key, val) # kvs) =
     (if \<not> first then '','' else []) @ ''"'' @ key @ ''":"'' @ val @ ''"''
       @ headers_json False kvs\<close>

fun body_json :: "nat \<Rightarrow> 8 word list \<Rightarrow> string" where
  "body_json i [] = []"
| "body_json i (b # bs) =
     (if 0 < i then '','' else []) @ to_string (uint b) @ body_json (Suc i) bs"

definition to_json :: "HttpRequest \<Rightarrow> string" where
  \<open>to_json req =
     ''{''
     @ ''"method":"'' @ method_name req @ ''",''
     @ ''"url":"'' @ url req @ ''",''
     @ ''"headers":{''
     @ headers_json True (headers req)
     @ ''},''
     @ ''"body":[''
     @ body_json 0 (body req)
     @ ''],''
     @ ''"timeout":'' @ to_string (sint (timeout req))
     @ ''}''\<close>

subsection \<open>HttpResponse\<close>

text \<open>
  \<open>status_code\<close> is a C++ \<open>int\<close>. The fields \<open>headers\<close>, \<open>body\<close> and \<open>error\<close>
  of the class carry the prefix \<open>response_\<close> here, the request's fields having taken
  the plain names.
\<close>

record HttpResponse =
  status_code :: "32 word"
  response_headers :: "(string \<times> string) list"
  response_body :: "8 word list"
  response_error :: string

definition HttpResponse_default :: HttpResponse where
  "HttpResponse_default =
     \<lparr>status_code = 0, response_headers = [], response_body = [], response_error = []\<rparr>"

definition is_success :: "HttpResponse \<Rightarrow> bool" where
  "is_success resp \<longleftrightarrow> 200 \<le>s status_code resp \<and> status_code resp <s 300"

definition has_error :: "HttpResponse \<Rightarrow> bool" where
  "has_error resp \<longleftrightarrow> response_error resp \<noteq> []"

definition text_of :: "HttpResponse \<Rightarrow> string" where
  "text_of resp = map (\<lambda>b. char_of (unat b)) (response_body resp)"

text \<open>
  The decoding table of \<open>base64_decode\<close>, indexed by character code; one inner list
  for each row of sixteen entries in the source.
\<close>

definition base64_table :: "8 word list" where
  "base64_table = concat
    [[255, 255, 255, 255, 255, 255, 255, 255, 255, 255, 255, 255, 255, 255, 255, 255],
     [255, 255, 255, 255, 255, 255, 255, 255, 255, 255, 255, 255, 255, 255, 255, 255],
     [255, 255, 255, 255, 255, 255, 255, 255, 255, 255, 255, 62, 255, 255, 255, 63],
     [52, 53, 54, 55, 56, 57, 58, 59, 60, 61, 255, 255, 255, 0, 255, 255],
     [255, 0, 1, 2, 3, 4, 5, 6, 7, 8, 9, 10, 11, 12, 13, 14],
     [15, 16, 17, 18, 19, 20, 21, 22, 23, 24, 25, 255, 255, 255, 255, 255],
     [255, 26, 27, 28, 29, 30, 31, 32, 33, 34, 35, 36, 37, 38, 39, 40],
     [41, 42, 43, 44, 45, 46, 47, 48, 49, 50, 51, 255, 255, 255, 255, 255]]"

text \<open>
  The loop of \<open>base64_decode\<close> over the input characters, with its three variables
  \<open>buf\<close> (a \<open>uint32_t\<close>), \<open>bits\<close> and \<open>output\<close>. A character with code 128 or
  more is skipped, as the guard \<open>c >= 128\<close> asks (where \<open>char\<close> is signed the guard
  never holds and the table is read out of range, which C++ leaves undefined).
\<close>

fun base64_loop :: "string \<Rightarrow> 32 word \<Rightarrow> nat \<Rightarrow> 8 word list \<Rightarrow> 8 word list" where
  "base64_loop [] buf bits output = output"
| "base64_loop (c # cs) buf bits output =
     (if c = CHR ''='' then output
      else if 128 \<le> (of_char c :: nat) \<or> base64_table ! of_char c = 255
        then base64_loop cs buf bits output
      else if 8 \<le> bits + 6
        then base64_loop cs
               ((push_bit 6 buf OR ucast (base64_table ! of_char c))
                  AND (push_bit (bits + 6 - 8) 1 - 1))
               (bits + 6 - 8)
               (output @ [ucast (drop_bit (bits + 6 - 8)
                            (push_bit 6 buf OR ucast (base64_table ! of_char c)) AND 0xFF)])
      else base64_loop cs (push_bit 6 buf OR ucast (base64_table ! of_char c))
             (bits + 6) output)"

definition base64_decode :: "string \<Rightarrow> 8 word list" where
  "base64_decode input = (if input = [] then [] else base64_loop input 0 0 [])"

text \<open>
  \<open>from_json\<close>: three searches of the text, each filling one field when its key is
  found; a non-empty \<open>error\<close> field turns the result into an error.
\<close>

definition parse_status_code :: "string \<Rightarrow> 32 word" where
  \<open>parse_status_code json =
     (case str_find json ''"status_code":'' 0 of
        None \<Rightarrow> 0
      | Some pos \<Rightarrow>
          atoi (dropWhile (\<lambda>c. c = CHR '' '' \<or> c = CHR '':'') (drop (pos + 14) json)))\<close>

definition parse_body :: "string \<Rightarrow> 8 word list" where
  \<open>parse_body json =
     (case str_find json ''"body":"'' 0 of
        None \<Rightarrow> []
      | Some pos \<Rightarrow>
          (case str_find json ''"'' (pos + 8) of
             None \<Rightarrow> []
           | Some end_pos \<Rightarrow> base64_decode (substr json (pos + 8) (end_pos - (pos + 8)))))\<close>

definition parse_error :: "string \<Rightarrow> string" where
  \<open>parse_error json =
     (case str_find json ''"error":"'' 0 of
        None \<Rightarrow> []
      | Some pos \<Rightarrow>
          (case str_find json ''"'' (pos + 9) of
             None \<Rightarrow> []
           | Some end_pos \<Rightarrow> substr json (pos + 9) (end_pos - (pos + 9))))\<close>

definition from_json :: "string \<Rightarrow> HttpResponse Result" where
  "from_json json =
     (let resp = HttpResponse_default
           \<lparr>status_code := parse_status_code json,
            response_body := parse_body json,
            response_error := parse_error json\<rparr>
      in if response_error resp \<noteq> [] then Inl (Error_other (response_error resp))
         else Inr resp)"

subsection \<open>Http::request\<close>

text \<open>
  \<open>host_http_request\<close> is the function the host exports to the guest. It is a
  parameter of the model: given the request text it reads (a C string), it answers
  with the combined 64-bit value and leaves the guest's linear memory in some state,
  given here as the bytes from address 0 on.
\<close>

type_synonym host_http = "string \<Rightarrow> 64 word \<times> string"

text \<open>The two halves \<open>Http::request\<close> takes out of the combined value.\<close>

definition response_ptr :: "64 word \<Rightarrow> 32 word" where
  "response_ptr result = ucast (result AND 0xFFFFFFFF)"

definition response_size :: "64 word \<Rightarrow> 32 word" where
  "response_size result = ucast (drop_bit 32 result AND 0xFFFFFFFF)"

text \<open>
  \<open>std::string(response_data, response_size)\<close>: the bytes at the address. A read that
  leaves the linear memory traps in the sandbox: \<open>None\<close>.
\<close>

definition read_memory :: "string \<Rightarrow> 32 word \<Rightarrow> 32 word \<Rightarrow> string option" where
  "read_memory memory ptr len =
     (if unat ptr + unat len \<le> length memory
      then Some (take (unat len) (drop (unat ptr) memory)) else None)"

definition request :: "host_http \<Rightarrow> HttpRequest \<Rightarrow> HttpResponse Result option" where
  "request host_http_request req =
     (let request_json = to_json req;
          (result, memory) = host_http_request (c_str request_json)
      in if response_ptr result = 0 then Some (Inl (Error_other ''HTTP request failed''))
         else (case read_memory memory (response_ptr result) (response_size result) of
                 None \<Rightarrow> None
               | Some response_json \<Rightarrow> Some (from_json response_json)))"

definition Http_get :: "host_http \<Rightarrow> string \<Rightarrow> HttpResponse Result option" where
  "Http_get host u = request host (HttpRequest_get u)"

definition Http_post :: "host_http \<Rightarrow> string \<Rightarrow> 8 word list \<Rightarrow> HttpResponse Result option" where
  "Http_post host u data = request host (set_body data (HttpRequest_post u))"

definition Http_put :: "host_http \<Rightarrow> string \<Rightarrow> 8 word list \<Rightarrow> HttpResponse Result option" where
  "Http_put host u data = request host (set_body data (HttpRequest_put u))"

definition Http_del :: "host_http \<Rightarrow> string \<Rightarrow> HttpResponse Result option" where
  "Http_del host u = request host (HttpRequest_del u)"

text \<open>
  Modelled from the spec: the host side of the calling convention, which builds the
  combined value, is not among the sources. The spec has the 32-bit memory offset and
  the 32-bit byte length packed into one 64-bit value; the offset is the low half, as
  \<open>Http::request\<close> reads it.
\<close>

definition pack_ptr_len :: "32 word \<Rightarrow> 32 word \<Rightarrow> 64 word" where
  "pack_ptr_len ptr len = ucast ptr OR push_bit 32 (ucast len)"

text \<open>
  The fields the spec gives the host-HTTP envelope, and the test whether a serialized
  request holds a member of a given name.
\<close>

definition envelope_fields :: "string list" where
  "envelope_fields =
     [''method'', ''path'', ''offset'', ''size'', ''headers'', ''body'', ''timeoutSeconds'']"

definition has_field :: "string \<Rightarrow> string \<Rightarrow> bool" where
  \<open>has_field json name \<longleftrightarrow> str_find json (''"'' @ name @ ''":'') 0 \<noteq> None\<close>

text \<open>A JSON object, array and string written out, members in the order given.\<close>

fun join_with :: "string \<Rightarrow> string list \<Rightarrow> string" where
  "join_with sep [] = []"
| "join_with sep [x] = x"
| "join_with sep (x # y # ys) = x @ sep @ join_with sep (y # ys)"

definition json_string :: "string \<Rightarrow> string" where
  \<open>json_string s = ''"'' @ s @ ''"''\<close>

definition json_array :: "string list \<Rightarrow> string" where
  "json_array items = ''['' @ join_with '','' items @ '']''"

definition json_object :: "(string \<times> string) list \<Rightarrow> string" where
  "json_object members =
     ''{'' @ join_with '','' (map (\<lambda>(k, v). json_string k @ '':'' @ v) members) @ ''}''"

text \<open>
  The requests the factory functions and the setters build, and the requests none of
  whose strings holds a double quote.
\<close>

inductive built_request :: "HttpRequest \<Rightarrow> bool" where
  default: "built_request HttpRequest_default"
| get: "built_request (HttpRequest_get u)"
| post: "built_request (HttpRequest_post u)"
| put: "built_request (HttpRequest_put u)"
| del: "built_request (HttpRequest_del u)"
| set_method: "built_request req \<Longrightarrow> built_request (set_method m req)"
| add_header: "built_request req \<Longrightarrow> built_request (add_header k v req)"
| set_body: "built_request req \<Longrightarrow> built_request (set_body data req)"
| set_body_string: "built_request req \<Longrightarrow> built_request (set_body_string text req)"
| set_timeout: "built_request req \<Longrightarrow> built_request (set_timeout seconds req)"

definition no_quote :: "string \<Rightarrow> bool" where
  "no_quote s \<longleftrightarrow> CHR 0x22 \<notin> set s"

definition plain_strings :: "HttpRequest \<Rightarrow> bool" where
  "plain_strings req \<longleftrightarrow>
     no_quote (method_name req) \<and> no_quote (url req)
     \<and> list_all (\<lambda>(k, v). no_quote k \<and> no_quote v) (headers req)"

text \<open>
  The pieces of a text between the occurrences of a character; the pieces of the
  serialized request that lie between its double quotes, in order; and, of a list of
  such pieces, those that are followed by a piece beginning with a colon.
\<close>

fun pieces :: "char \<Rightarrow> string \<Rightarrow> string list" where
  "pieces sep [] = [[]]"
| "pieces sep (c # cs) =
     (if c = sep then [] # pieces sep cs
      else (c # hd (pieces sep cs)) # tl (pieces sep cs))"

fun header_chunks :: "(string \<times> string) list \<Rightarrow> string list" where
  "header_chunks [] = []"
| "header_chunks [(k, v)] = [k, '':'', v, ''},'']"
| "header_chunks ((k, v) # kv # kvs) = [k, '':'', v, '',''] @ header_chunks (kv # kvs)"

definition request_chunks :: "HttpRequest \<Rightarrow> string list" where
  "request_chunks req =
     [''{'', ''method'', '':'', method_name req, '','', ''url'', '':'', url req, '','',
      ''headers'']
     @ (if headers req = [] then ['':{},''] else '':{'' # header_chunks (headers req))
     @ [''body'', '':['' @ body_json 0 (body req) @ ''],'', ''timeout'',
        '':'' @ to_string (sint (timeout req)) @ ''}'']"

fun colon_keys :: "string list \<Rightarrow> string list" where
  "colon_keys (x # y # zs) =
     (if take 1 y = '':'' then x # colon_keys (y # zs) else colon_keys (y # zs))"
| "colon_keys zs = []"

text \<open>Requests built by the factory functions and the setters other than \<open>set_timeout\<close>.\<close>

inductive no_explicit_timeout :: "HttpRequest \<Rightarrow> bool" where
  default: "no_explicit_timeout HttpRequest_default"
| get: "no_explicit_timeout (HttpRequest_get u)"
| post: "no_explicit_timeout (HttpRequest_post u)"
| put: "no_explicit_timeout (HttpRequest_put u)"
| del: "no_explicit_timeout (HttpRequest_del u)"
| set_method: "no_explicit_timeout req \<Longrightarrow> no_explicit_timeout (set_method m req)"
| add_header: "no_explicit_timeout req \<Longrightarrow> no_explicit_timeout (add_header k v req)"
| set_body: "no_explicit_timeout req \<Longrightarrow> no_explicit_timeout (set_body data req)"
| set_body_string: "no_explicit_timeout req \<Longrightarrow> no_explicit_timeout (set_body_string text req)"

section \<open>Example providers\<close>

text \<open>
  \<open>HttpTestFS::read\<close> of the C++ example: two paths, each fetched over HTTP; the
  arguments \<open>offset\<close> and \<open>size\<close> (both \<open>int64_t\<close>; \<open>sz\<close> below) are not used
  by the body.
\<close>

definition body_or_error :: "HttpResponse Result option \<Rightarrow> 8 word list Result option" where
  "body_or_error result =
     (case result of
        None \<Rightarrow> None
      | Some (Inl err) \<Rightarrow> Some (Inl err)
      | Some (Inr response) \<Rightarrow>
          if \<not> is_success response
          then Some (Inl (Error_other (''HTTP error: '' @ to_string (sint (status_code response)))))
          else Some (Inr (response_body response)))"

definition HttpTestFS_read ::
    "host_http \<Rightarrow> string \<Rightarrow> 64 word \<Rightarrow> 64 word \<Rightarrow> 8 word list Result option" where
  "HttpTestFS_read host path offset sz =
     (if path = ''/test_get'' then body_or_error (Http_get host ''https://example.com'')
      else if path = ''/test_json'' then
        body_or_error
          (request host
             (add_header ''Accept'' ''application/json''
                (add_header ''User-Agent'' ''AGFS-WASM-Plugin''
                   (HttpRequest_get ''https://api.github.com/users/github''))))
      else Some (Inl Error_not_found))"

text \<open>
  \<open>HelloFS::read\<close> of the Rust example: one file, \<open>_offset\<close> and \<open>_size\<close> (both
  \<open>i64\<close>) ignored. Its \<open>Error::NotFound\<close> is \<open>Error_not_found\<close> here.
\<close>

definition hello_content :: "8 word list" where
  "hello_content = map of_char (''Hello, World!'' @ [CHR 0x0A])"

definition HelloFS_read :: "string \<Rightarrow> 64 word \<Rightarrow> 64 word \<Rightarrow> 8 word list Result" where
  "HelloFS_read path offset sz =
     (if path = ''/hello.txt'' then Inr hello_content else Inl Error_not_found)"

section \<open>The SQS queue backend (sqs_backend.go)\<close>

subsection \<open>Errors, time and the library\<close>

text \<open>
  Go errors as values. The two typed errors of the SQS SDK carry what their
  \<open>ErrorCode()\<close> returns; \<open>APIError\<close> is any other error implementing
  \<open>smithy.APIError\<close>, with its code. \<open>Errorf\<close> is \<open>fmt.Errorf\<close> with its format
  and arguments, \<open>Wrap\<close> a \<open>fmt.Errorf\<close> whose format ends in \<open>%w\<close>, with the
  error it wraps.
\<close>

datatype go_error =
    QueueDoesNotExist string
  | QueueNameExists string
  | APIError string
  | Errorf string "string list"
  | Wrap string "string list" go_error

text \<open>
  \<open>errors.As\<close> walks the chain of wrapped errors for the first error of the target
  type; the typed SDK errors implement \<open>smithy.APIError\<close> as well.
\<close>

fun as_QueueDoesNotExist :: "go_error \<Rightarrow> bool" where
  "as_QueueDoesNotExist (QueueDoesNotExist code) = True"
| "as_QueueDoesNotExist (Wrap format args err) = as_QueueDoesNotExist err"
| "as_QueueDoesNotExist err = False"

fun as_QueueNameExists :: "go_error \<Rightarrow> bool" where
  "as_QueueNameExists (QueueNameExists code) = True"
| "as_QueueNameExists (Wrap format args err) = as_QueueNameExists err"
| "as_QueueNameExists err = False"

fun as_APIError :: "go_error \<Rightarrow> string option" where
  "as_APIError (QueueDoesNotExist code) = Some code"
| "as_APIError (QueueNameExists code) = Some code"
| "as_APIError (APIError code) = Some code"
| "as_APIError (Errorf format args) = None"
| "as_APIError (Wrap format args err) = as_APIError err"

definition isQueueDoesNotExistError :: "go_error \<Rightarrow> bool" where
  "isQueueDoesNotExistError err =
     (if as_QueueDoesNotExist err then True
      else (case as_APIError err of
              Some code \<Rightarrow>
                code = ''AWS.SimpleQueueService.NonExistentQueue''
                \<or> code = ''QueueDoesNotExist'' \<or> code = ''NonExistentQueue''
            | None \<Rightarrow> False))"

text \<open>
  A \<open>time.Time\<close> is the count of nanoseconds since the zero time, a
  \<open>time.Duration\<close> a count of nanoseconds. The clock reading \<open>time.Now()\<close> is a
  parameter \<open>now\<close> of each operation that reads the clock; where the operation
  reads the clock in a loop, the one reading serves every turn.
\<close>

type_synonym Time = int

type_synonym Duration = int

definition Minute :: Duration where
  "Minute = 60 * 1000000000"

definition Millisecond :: "64 word" where
  "Millisecond = 1000000"

definition IsZero :: "Time \<Rightarrow> bool" where
  "IsZero t \<longleftrightarrow> t = 0"

definition After :: "Time \<Rightarrow> Time \<Rightarrow> bool" where
  "After t u \<longleftrightarrow> u < t"

definition Add :: "Time \<Rightarrow> Duration \<Rightarrow> Time" where
  "Add t d = t + d"

text \<open>\<open>time.Unix(0, nsec)\<close>: the Unix epoch lies 62135596800 seconds after the zero time.\<close>

definition Unix_nsec :: "64 word \<Rightarrow> Time" where
  "Unix_nsec nsec = 62135596800 * 1000000000 + sint nsec"

text \<open>
  Two library functions are parameters of the model: \<open>time.Parse\<close> with the layout
  \<open>RFC3339Nano\<close>, and \<open>fmt.Sscanf\<close> with the format \<open>%d\<close> into a 64-bit integer.
\<close>

record go_lib =
  time_Parse :: "string \<Rightarrow> Time option"
  Sscanf_d :: "string \<Rightarrow> go_error + 64 word"

definition sqsAttrMessageID :: string where
  "sqsAttrMessageID = ''ID''"

definition sqsAttrMessageTS :: string where
  "sqsAttrMessageTS = ''Timestamp''"

definition sqsDefaultWaitSeconds :: "32 word" where
  "sqsDefaultWaitSeconds = 10"

definition sqsDefaultVisibility :: "32 word" where
  "sqsDefaultVisibility = 30"

definition sqsDefaultMaxReceive :: "32 word" where
  "sqsDefaultMaxReceive = 1"

definition sqsDeletedQueueTTL :: Duration where
  "sqsDeletedQueueTTL = 2 * Minute"

text \<open>
  \<open>strings.TrimSpace\<close> removes the leading and the trailing white space, as Unicode
  defines it, from a string of bytes read as UTF-8: the six ASCII characters of
  \<open>asciiSpace\<close>, and the code points U+0085, U+00A0, U+1680, U+2000 to U+200A, U+2028,
  U+2029, U+202F, U+205F and U+3000, listed here in their UTF-8 encodings (a byte that
  is no valid encoding is no white space and ends the trimming).
\<close>

definition asciiSpace :: "char \<Rightarrow> bool" where
  "asciiSpace c \<longleftrightarrow> c \<in> {CHR 0x09, CHR 0x0A, CHR 0x0B, CHR 0x0C, CHR 0x0D, CHR '' ''}"

definition unicode_spaces :: "string list" where
  "unicode_spaces =
     [[CHR 0xC2, CHR 0x85], [CHR 0xC2, CHR 0xA0], [CHR 0xE1, CHR 0x9A, CHR 0x80]]
     @ map (\<lambda>b. [CHR 0xE2, CHR 0x80, b])
         [CHR 0x80, CHR 0x81, CHR 0x82, CHR 0x83, CHR 0x84, CHR 0x85, CHR 0x86, CHR 0x87,
          CHR 0x88, CHR 0x89, CHR 0x8A, CHR 0xA8, CHR 0xA9, CHR 0xAF]
     @ [[CHR 0xE2, CHR 0x81, CHR 0x9F], [CHR 0xE3, CHR 0x80, CHR 0x80]]"

text \<open>The number of bytes of the white-space character a string starts or ends with.\<close>

definition leading_space :: "string \<Rightarrow> nat" where
  "leading_space s =
     (case s of
        [] \<Rightarrow> 0
      | c # cs \<Rightarrow>
          if asciiSpace c then 1
          else (case find (\<lambda>w. take (length w) s = w) unicode_spaces of
                  Some w \<Rightarrow> length w
                | None \<Rightarrow> 0))"

definition trailing_space :: "string \<Rightarrow> nat" where
  "trailing_space s =
     (case rev s of
        [] \<Rightarrow> 0
      | c # cs \<Rightarrow>
          if asciiSpace c then 1
          else (case find (\<lambda>w. drop (length s - length w) s = w) unicode_spaces of
                  Some w \<Rightarrow> length w
                | None \<Rightarrow> 0))"

function TrimLeft_space :: "string \<Rightarrow> string" where
  "TrimLeft_space s =
     (if leading_space s = 0 then s else TrimLeft_space (drop (leading_space s) s))"
  by pat_completeness auto
termination
  by (relation "measure length") (auto simp: leading_space_def split: list.splits)

function TrimRight_space :: "string \<Rightarrow> string" where
  "TrimRight_space s =
     (if trailing_space s = 0 then s
      else TrimRight_space (take (length s - trailing_space s) s))"
  by pat_completeness auto
termination
  by (relation "measure length") (auto simp: trailing_space_def split: list.splits)

declare TrimLeft_space.simps [simp del] TrimRight_space.simps [simp del]

definition TrimSpace :: "string \<Rightarrow> string" where
  "TrimSpace s = TrimRight_space (TrimLeft_space s)"

text \<open>\<open>strings.Split\<close> on one separator character, and \<open>strings.HasPrefix\<close>.\<close>

fun Split :: "string \<Rightarrow> char \<Rightarrow> string list" where
  "Split [] sep = [[]]"
| "Split (c # cs) sep =
     (if c = sep then [] # Split cs sep
      else (case Split cs sep of [] \<Rightarrow> [[c]] | part # parts \<Rightarrow> (c # part) # parts))"

definition HasPrefix :: "string \<Rightarrow> string \<Rightarrow> bool" where
  "HasPrefix s pre \<longleftrightarrow> take (length pre) s = pre"

definition queueNameFromURL :: "string \<Rightarrow> string" where
  "queueNameFromURL u0 =
     (let u = TrimSpace u0 in
      if u = [] then []
      else (let parts = Split u (CHR ''/'') in
            if length parts = 0 then [] else last parts))"

subsection \<open>SQSClient\<close>

text \<open>
  The messages of the SDK (\<open>types.Message\<close>, with \<open>nil\<close> as \<open>None\<close>; of a message
  attribute only its \<open>StringValue\<close> is read), the queue messages of the package, and
  the input of \<open>ReceiveMessage\<close>. \<open>QueueMessage\<close> is declared in another file of the
  package, which is not among the sources; its fields are the three this file reads
  and writes.
\<close>

record Message =
  Body :: "string option"
  MessageId :: "string option"
  ReceiptHandle :: "string option"
  MessageAttributes :: "string \<Rightarrow> string option option"
  Attributes :: "string \<Rightarrow> string option"

record QueueMessage =
  ID :: string
  Data :: string
  Timestamp :: Time

definition QueueMessage_zero :: QueueMessage where
  "QueueMessage_zero = \<lparr>ID = [], Data = [], Timestamp = 0\<rparr>"

record ReceiveMessageInput =
  QueueUrl :: string
  MaxNumberOfMessages :: "32 word"
  VisibilityTimeout :: "32 word"
  WaitTimeSeconds :: "32 word"
  MessageAttributeNames :: "string list"
  MessageSystemAttributeNames :: "string list"

text \<open>
  The SQS service behind the SDK client is a parameter: each operation of
  \<open>c.client\<close> is a function of its input and the state \<open>'r\<close> of the remote
  service, returning its output or error and the next state. A context that is
  cancelled or past its deadline shows as an error of the operation.
  \<open>client_DeleteMessageBatch\<close> returns the number of failed entries.
\<close>

record 'r SQSClient =
  client_CreateQueue :: "string \<Rightarrow> 'r \<Rightarrow> go_error option \<times> 'r"
  client_DeleteQueue :: "string \<Rightarrow> 'r \<Rightarrow> go_error option \<times> 'r"
  client_PurgeQueue :: "string \<Rightarrow> 'r \<Rightarrow> go_error option \<times> 'r"
  client_GetQueueUrl :: "string \<Rightarrow> 'r \<Rightarrow> (go_error + string option) \<times> 'r"
  client_ListQueues ::
    "string \<Rightarrow> string option \<Rightarrow> 'r \<Rightarrow> (go_error + string list \<times> string option) \<times> 'r"
  client_GetQueueAttributes :: "string \<Rightarrow> 'r \<Rightarrow> (go_error + (string \<Rightarrow> string option)) \<times> 'r"
  client_ReceiveMessage :: "ReceiveMessageInput \<Rightarrow> 'r \<Rightarrow> (go_error + Message list) \<times> 'r"
  client_DeleteMessageBatch ::
    "string \<Rightarrow> (string \<times> string) list \<Rightarrow> 'r \<Rightarrow> (go_error + nat) \<times> 'r"
  region :: string

definition SQSClient_GetQueueURL ::
    "'r SQSClient \<Rightarrow> string \<Rightarrow> 'r \<Rightarrow> (go_error + string) \<times> 'r" where
  "SQSClient_GetQueueURL c queueName r =
     (if queueName = [] then (Inl (Errorf ''queue name cannot be empty'' []), r)
      else (case client_GetQueueUrl c queueName r of
              (Inl err, r') \<Rightarrow> (Inl err, r')
            | (Inr None, r') \<Rightarrow>
                (Inl (Errorf ''empty queue URL returned for queue %q'' [queueName]), r')
            | (Inr (Some u), r') \<Rightarrow>
                if u = []
                then (Inl (Errorf ''empty queue URL returned for queue %q'' [queueName]), r')
                else (Inr u, r')))"

definition SQSClient_CreateQueue ::
    "'r SQSClient \<Rightarrow> string \<Rightarrow> 'r \<Rightarrow> go_error option \<times> 'r" where
  "SQSClient_CreateQueue c queueName r =
     (if queueName = [] then (Some (Errorf ''queue name cannot be empty'' []), r)
      else (case client_CreateQueue c queueName r of
              (None, r') \<Rightarrow> (None, r')
            | (Some err, r') \<Rightarrow>
                if as_QueueNameExists err then (None, r') else (Some err, r')))"

definition SQSClient_EnsureQueueURL ::
    "'r SQSClient \<Rightarrow> string \<Rightarrow> 'r \<Rightarrow> (go_error + string) \<times> 'r" where
  "SQSClient_EnsureQueueURL c queueName r =
     (if queueName = [] then (Inl (Errorf ''queue name cannot be empty'' []), r)
      else (case SQSClient_GetQueueURL c queueName r of
              (Inr u, r1) \<Rightarrow> (Inr u, r1)
            | (Inl err, r1) \<Rightarrow>
                if \<not> isQueueDoesNotExistError err
                then (Inl (Wrap ''failed to get queue URL for %q: %w'' [queueName] err), r1)
                else (case SQSClient_CreateQueue c queueName r1 of
                        (Some err2, r2) \<Rightarrow>
                          (Inl (Wrap ''failed to create queue %q: %w'' [queueName] err2), r2)
                      | (None, r2) \<Rightarrow>
                          (case SQSClient_GetQueueURL c queueName r2 of
                             (Inl err3, r3) \<Rightarrow>
                               (Inl (Wrap ''failed to get queue URL after create for %q: %w''
                                       [queueName] err3), r3)
                           | (Inr u, r3) \<Rightarrow> (Inr u, r3)))))"

definition SQSClient_DeleteQueue ::
    "'r SQSClient \<Rightarrow> string \<Rightarrow> 'r \<Rightarrow> go_error option \<times> 'r" where
  "SQSClient_DeleteQueue c queueURL r =
     (if queueURL = [] then (Some (Errorf ''queue URL cannot be empty'' []), r)
      else client_DeleteQueue c queueURL r)"

definition SQSClient_PurgeQueue ::
    "'r SQSClient \<Rightarrow> string \<Rightarrow> 'r \<Rightarrow> go_error option \<times> 'r" where
  "SQSClient_PurgeQueue c queueURL r =
     (if queueURL = [] then (Some (Errorf ''queue URL cannot be empty'' []), r)
      else client_PurgeQueue c queueURL r)"

text \<open>
  \<open>ListQueues\<close> asks for one page after another until a page carries no token. The
  service may hand out tokens for ever, so the loop is a partial function: \<open>None\<close>
  stands for a call that does not return.
\<close>

partial_function (option) ListQueues_pages ::
    "'r SQSClient \<Rightarrow> string \<Rightarrow> string option \<Rightarrow> string list \<Rightarrow> 'r
      \<Rightarrow> ((go_error + string list) \<times> 'r) option" where
  "ListQueues_pages c pre nextToken result r =
     (case client_ListQueues c pre nextToken r of
        (Inl err, r') \<Rightarrow> Some (Inl err, r')
      | (Inr (QueueUrls, NextToken), r') \<Rightarrow>
          (if NextToken = None \<or> NextToken = Some []
           then Some (Inr (sort (result
                  @ filter (\<lambda>name. name \<noteq> []) (map queueNameFromURL QueueUrls))), r')
           else ListQueues_pages c pre NextToken
                  (result @ filter (\<lambda>name. name \<noteq> []) (map queueNameFromURL QueueUrls)) r'))"

definition SQSClient_ListQueues ::
    "'r SQSClient \<Rightarrow> string \<Rightarrow> 'r \<Rightarrow> ((go_error + string list) \<times> 'r) option" where
  "SQSClient_ListQueues c pre r = ListQueues_pages c pre None [] r"

definition SQSClient_ApproximateNumberOfMessages ::
    "'r SQSClient \<Rightarrow> go_lib \<Rightarrow> string \<Rightarrow> 'r \<Rightarrow> (go_error + 64 word) \<times> 'r" where
  "SQSClient_ApproximateNumberOfMessages c lib queueURL r =
     (if queueURL = [] then (Inl (Errorf ''queue URL cannot be empty'' []), r)
      else (case client_GetQueueAttributes c queueURL r of
              (Inl err, r') \<Rightarrow> (Inl err, r')
            | (Inr out_Attributes, r') \<Rightarrow>
                (let val = (case out_Attributes ''ApproximateNumberOfMessages'' of
                              None \<Rightarrow> [] | Some v \<Rightarrow> v)
                 in if val = [] then (Inr 0, r')
                    else (case Sscanf_d lib val of
                            Inl scanErr \<Rightarrow>
                              (Inl (Wrap ''invalid ApproximateNumberOfMessages value %q: %w''
                                      [val] scanErr), r')
                          | Inr n \<Rightarrow> (Inr n, r')))))"

text \<open>\<open>fromSQSMessage\<close>; its error result is always \<open>nil\<close>.\<close>

definition fromSQSMessage :: "go_lib \<Rightarrow> Time \<Rightarrow> Message \<Rightarrow> go_error + QueueMessage" where
  "fromSQSMessage lib now m =
     (let data = (case Body m of None \<Rightarrow> [] | Some b \<Rightarrow> b);
          msg_id =
            (case MessageAttributes m sqsAttrMessageID of
               Some (Some v) \<Rightarrow> v
             | _ \<Rightarrow> (case MessageId m of Some i \<Rightarrow> i | None \<Rightarrow> []));
          ts1 =
            (case MessageAttributes m sqsAttrMessageTS of
               Some (Some v) \<Rightarrow> (case time_Parse lib v of Some t \<Rightarrow> t | None \<Rightarrow> 0)
             | _ \<Rightarrow> 0);
          ts2 =
            (if IsZero ts1
             then (case Attributes m ''SentTimestamp'' of
                     Some sentTS \<Rightarrow>
                       if sentTS \<noteq> []
                       then (case Sscanf_d lib sentTS of
                               Inr ms \<Rightarrow> Unix_nsec (ms * Millisecond)
                             | Inl err \<Rightarrow> ts1)
                       else ts1
                   | None \<Rightarrow> ts1)
             else ts1);
          ts3 = (if IsZero ts2 then now else ts2)
      in Inr \<lparr>ID = msg_id, Data = data, Timestamp = ts3\<rparr>)"

text \<open>The two loops of \<open>ReceiveMessages\<close> over the received messages.\<close>

fun convert_messages :: "go_lib \<Rightarrow> Time \<Rightarrow> Message list \<Rightarrow> go_error + QueueMessage list" where
  "convert_messages lib now [] = Inr []"
| "convert_messages lib now (m # ms) =
     (case fromSQSMessage lib now m of
        Inl convErr \<Rightarrow> Inl convErr
      | Inr qm \<Rightarrow>
          (case convert_messages lib now ms of
             Inl convErr \<Rightarrow> Inl convErr
           | Inr messages \<Rightarrow> Inr (qm # messages)))"

fun delete_entries :: "nat \<Rightarrow> Message list \<Rightarrow> (string \<times> string) list" where
  "delete_entries i [] = []"
| "delete_entries i (m # ms) =
     (case ReceiptHandle m of
        None \<Rightarrow> delete_entries (Suc i) ms
      | Some h \<Rightarrow>
          if h = [] then delete_entries (Suc i) ms
          else (''d-'' @ decimal i, h) # delete_entries (Suc i) ms)"

text \<open>
  The input \<open>ReceiveMessages\<close> hands to the SDK, with the two adjustments of
  \<open>maxMessages\<close> and the choice of the visibility timeout that precede it.
\<close>

definition receive_input :: "string \<Rightarrow> 32 word \<Rightarrow> bool \<Rightarrow> ReceiveMessageInput" where
  "receive_input queueURL maxMessages0 autoDelete =
     (let maxMessages1 = (if maxMessages0 <s 1 then 1 else maxMessages0);
          maxMessages = (if 10 <s maxMessages1 then 10 else maxMessages1);
          visibilityTimeout = (if \<not> autoDelete then 0 else sqsDefaultVisibility)
      in \<lparr>QueueUrl = queueURL,
          MaxNumberOfMessages = maxMessages,
          VisibilityTimeout = visibilityTimeout,
          WaitTimeSeconds = sqsDefaultWaitSeconds,
          MessageAttributeNames = [''All''],
          MessageSystemAttributeNames = [''SentTimestamp'']\<rparr>)"

definition SQSClient_ReceiveMessages ::
    "'r SQSClient \<Rightarrow> go_lib \<Rightarrow> Time \<Rightarrow> string \<Rightarrow> 32 word \<Rightarrow> bool \<Rightarrow> 'r
      \<Rightarrow> (go_error + QueueMessage list) \<times> 'r" where
  "SQSClient_ReceiveMessages c lib now queueURL maxMessages autoDelete r =
     (if queueURL = [] then (Inl (Errorf ''queue URL cannot be empty'' []), r)
      else (case client_ReceiveMessage c (receive_input queueURL maxMessages autoDelete) r of
              (Inl err, r1) \<Rightarrow> (Inl (Wrap ''receive message failed: %w'' [] err), r1)
            | (Inr out_Messages, r1) \<Rightarrow>
                (case convert_messages lib now out_Messages of
                   Inl convErr \<Rightarrow> (Inl convErr, r1)
                 | Inr messages \<Rightarrow>
                     if autoDelete \<and> 0 < length out_Messages
                     then (let entries = delete_entries 0 out_Messages in
                           if 0 < length entries
                           then (case client_DeleteMessageBatch c queueURL entries r1 of
                                   (Inl delErr, r2) \<Rightarrow>
                                     (Inl (Wrap ''delete received messages failed: %w'' []
                                             delErr), r2)
                                 | (Inr failed, r2) \<Rightarrow>
                                     if 0 < failed
                                     then (Inl (Errorf
                                            ''delete received messages partially failed: %d failed''
                                            [decimal failed]), r2)
                                     else (Inr messages, r2))
                           else (Inr messages, r1))
                     else (Inr messages, r1))))"

text \<open>
  A service that keeps a record: \<open>spy_client c\<close> answers every operation as \<open>c\<close>
  does, on a remote state that carries, beside the state of \<open>c\<close>, the list of the
  inputs \<open>ReceiveMessage\<close> has been asked with, in order.
\<close>

definition spy_client :: "'r SQSClient \<Rightarrow> ('r \<times> ReceiveMessageInput list) SQSClient" where
  "spy_client c =
     \<lparr>client_CreateQueue = (\<lambda>name (r, asked).
         case client_CreateQueue c name r of (res, r') \<Rightarrow> (res, (r', asked))),
      client_DeleteQueue = (\<lambda>u (r, asked).
         case client_DeleteQueue c u r of (res, r') \<Rightarrow> (res, (r', asked))),
      client_PurgeQueue = (\<lambda>u (r, asked).
         case client_PurgeQueue c u r of (res, r') \<Rightarrow> (res, (r', asked))),
      client_GetQueueUrl = (\<lambda>name (r, asked).
         case client_GetQueueUrl c name r of (res, r') \<Rightarrow> (res, (r', asked))),
      client_ListQueues = (\<lambda>pre token (r, asked).
         case client_ListQueues c pre token r of (res, r') \<Rightarrow> (res, (r', asked))),
      client_GetQueueAttributes = (\<lambda>u (r, asked).
         case client_GetQueueAttributes c u r of (res, r') \<Rightarrow> (res, (r', asked))),
      client_ReceiveMessage = (\<lambda>input (r, asked).
         case client_ReceiveMessage c input r of (res, r') \<Rightarrow> (res, (r', asked @ [input]))),
      client_DeleteMessageBatch = (\<lambda>u entries (r, asked).
         case client_DeleteMessageBatch c u entries r of (res, r') \<Rightarrow> (res, (r', asked))),
      region = region c\<rparr>"

subsection \<open>SQSBackend\<close>

text \<open>
  The two Go maps of the backend are finite maps. Where the source ranges over a map,
  the model visits the keys in sorted order; the order has no effect, since the names
  collected are sorted before they are returned. \<open>sqs\<close> is \<open>None\<close> until the
  backend is initialized.
\<close>

record 'r SQSBackend =
  sqs :: "'r SQSClient option"
  backendType :: string
  cache :: "(string, string) fmap"
  deleted :: "(string, Time) fmap"

definition NewSQSBackend :: "'r SQSBackend" where
  "NewSQSBackend = \<lparr>sqs = None, backendType = ''sqs'', cache = fmempty, deleted = fmempty\<rparr>"

text \<open>
  \<open>getQueueURL\<close>. Its callers have checked \<open>b.sqs\<close>; the client they found is the
  argument \<open>c\<close>.
\<close>

definition getQueueURL ::
    "'r SQSClient \<Rightarrow> 'r SQSBackend \<Rightarrow> string \<Rightarrow> bool \<Rightarrow> 'r
      \<Rightarrow> (go_error + string) \<times> 'r SQSBackend \<times> 'r" where
  "getQueueURL c b queueName createIfMissing r =
     (if queueName = [] then (Inl (Errorf ''queue name cannot be empty'' []), b, r)
      else if CHR ''/'' \<in> set queueName
        then (Inl (Errorf ''nested queue name %q is not supported by sqs backend'' [queueName]),
              b, r)
      else if (case fmlookup (cache b) queueName of Some u \<Rightarrow> u \<noteq> [] | None \<Rightarrow> False)
        then (Inr (the (fmlookup (cache b) queueName)), b, r)
      else (case (if createIfMissing then SQSClient_EnsureQueueURL c queueName r
                  else SQSClient_GetQueueURL c queueName r) of
              (Inl err, r') \<Rightarrow> (Inl err, b, r')
            | (Inr u, r') \<Rightarrow>
                (Inr u,
                 b\<lparr>cache := fmupd queueName u (cache b),
                   deleted := fmdrop queueName (deleted b)\<rparr>, r')))"

text \<open>
  \<open>Dequeue\<close>, \<open>Peek\<close>, \<open>Size\<close> and \<open>Clear\<close>. A result is the Go result tuple,
  then the backend and the remote state after the call.
\<close>

definition SQSBackend_Dequeue ::
    "go_lib \<Rightarrow> Time \<Rightarrow> 'r SQSBackend \<Rightarrow> string \<Rightarrow> 'r
      \<Rightarrow> (QueueMessage \<times> bool \<times> go_error option) \<times> 'r SQSBackend \<times> 'r" where
  "SQSBackend_Dequeue lib now b queueName r =
     (case sqs b of
        None \<Rightarrow>
          ((QueueMessage_zero, False, Some (Errorf ''sqs backend not initialized'' [])), b, r)
      | Some c \<Rightarrow>
          (case getQueueURL c b queueName False r of
             (Inl err, b1, r1) \<Rightarrow>
               if isQueueDoesNotExistError err then ((QueueMessage_zero, False, None), b1, r1)
               else ((QueueMessage_zero, False,
                      Some (Wrap ''dequeue get queue url failed: %w'' [] err)), b1, r1)
           | (Inr u, b1, r1) \<Rightarrow>
               (case SQSClient_ReceiveMessages c lib now u sqsDefaultMaxReceive True r1 of
                  (Inl err, r2) \<Rightarrow> ((QueueMessage_zero, False, Some err), b1, r2)
                | (Inr [], r2) \<Rightarrow> ((QueueMessage_zero, False, None), b1, r2)
                | (Inr (msg # msgs), r2) \<Rightarrow> ((msg, True, None), b1, r2))))"

definition SQSBackend_Peek ::
    "go_lib \<Rightarrow> Time \<Rightarrow> 'r SQSBackend \<Rightarrow> string \<Rightarrow> 'r
      \<Rightarrow> (QueueMessage \<times> bool \<times> go_error option) \<times> 'r SQSBackend \<times> 'r" where
  "SQSBackend_Peek lib now b queueName r =
     (case sqs b of
        None \<Rightarrow>
          ((QueueMessage_zero, False, Some (Errorf ''sqs backend not initialized'' [])), b, r)
      | Some c \<Rightarrow>
          (case getQueueURL c b queueName False r of
             (Inl err, b1, r1) \<Rightarrow>
               if isQueueDoesNotExistError err then ((QueueMessage_zero, False, None), b1, r1)
               else ((QueueMessage_zero, False,
                      Some (Wrap ''peek get queue url failed: %w'' [] err)), b1, r1)
           | (Inr u, b1, r1) \<Rightarrow>
               (case SQSClient_ReceiveMessages c lib now u sqsDefaultMaxReceive False r1 of
                  (Inl err, r2) \<Rightarrow> ((QueueMessage_zero, False, Some err), b1, r2)
                | (Inr [], r2) \<Rightarrow> ((QueueMessage_zero, False, None), b1, r2)
                | (Inr (msg # msgs), r2) \<Rightarrow> ((msg, True, None), b1, r2))))"

definition SQSBackend_Size ::
    "go_lib \<Rightarrow> 'r SQSBackend \<Rightarrow> string \<Rightarrow> 'r
      \<Rightarrow> (64 word \<times> go_error option) \<times> 'r SQSBackend \<times> 'r" where
  "SQSBackend_Size lib b queueName r =
     (case sqs b of
        None \<Rightarrow> ((0, Some (Errorf ''sqs backend not initialized'' [])), b, r)
      | Some c \<Rightarrow>
          (case getQueueURL c b queueName False r of
             (Inl err, b1, r1) \<Rightarrow>
               if isQueueDoesNotExistError err then ((0, None), b1, r1)
               else ((0, Some (Wrap ''size get queue url failed: %w'' [] err)), b1, r1)
           | (Inr u, b1, r1) \<Rightarrow>
               (case SQSClient_ApproximateNumberOfMessages c lib u r1 of
                  (Inl err, r2) \<Rightarrow> ((0, Some err), b1, r2)
                | (Inr n, r2) \<Rightarrow> ((n, None), b1, r2))))"

definition SQSBackend_Clear ::
    "'r SQSBackend \<Rightarrow> string \<Rightarrow> 'r \<Rightarrow> go_error option \<times> 'r SQSBackend \<times> 'r" where
  "SQSBackend_Clear b queueName r =
     (case sqs b of
        None \<Rightarrow> (Some (Errorf ''sqs backend not initialized'' []), b, r)
      | Some c \<Rightarrow>
          (case getQueueURL c b queueName False r of
             (Inl err, b1, r1) \<Rightarrow>
               if isQueueDoesNotExistError err then (None, b1, r1)
               else (Some (Wrap ''clear get queue url failed: %w'' [] err), b1, r1)
           | (Inr u, b1, r1) \<Rightarrow>
               (case SQSClient_PurgeQueue c u r1 of (res, r2) \<Rightarrow> (res, b1, r2))))"

definition SQSBackend_CreateQueue ::
    "'r SQSBackend \<Rightarrow> string \<Rightarrow> 'r \<Rightarrow> go_error option \<times> 'r SQSBackend \<times> 'r" where
  "SQSBackend_CreateQueue b queueName r =
     (case sqs b of
        None \<Rightarrow> (Some (Errorf ''sqs backend not initialized'' []), b, r)
      | Some c \<Rightarrow>
          (case getQueueURL c b queueName True r of
             (Inl err, b1, r1) \<Rightarrow> (Some err, b1, r1)
           | (Inr u, b1, r1) \<Rightarrow> (None, b1, r1)))"

text \<open>
  \<open>ListQueues\<close>: the purge of the expired entries of \<open>deleted\<close>, the loop over the
  names the service lists, and the loop over the cached names, both loops carrying
  \<open>filtered\<close> and \<open>seen\<close>.
\<close>

definition purge_expired :: "Time \<Rightarrow> (string, Time) fmap \<Rightarrow> (string, Time) fmap" where
  "purge_expired now del =
     fmfilter (\<lambda>q. case fmlookup del q of
                     Some expireAt \<Rightarrow> \<not> After now expireAt
                   | None \<Rightarrow> False) del"

definition listed_step ::
    "(string, Time) fmap \<Rightarrow> string \<Rightarrow> string list \<times> string set \<Rightarrow> string list \<times> string set" where
  "listed_step del q acc =
     (case acc of (filtered, seen) \<Rightarrow>
        if fmlookup del q \<noteq> None then (filtered, seen)
        else (filtered @ [q], insert q seen))"

definition cached_step ::
    "(string, Time) fmap \<Rightarrow> string \<Rightarrow> string \<Rightarrow> string list \<times> string set
      \<Rightarrow> string list \<times> string set" where
  "cached_step del pre q acc =
     (case acc of (filtered, seen) \<Rightarrow>
        if fmlookup del q \<noteq> None then (filtered, seen)
        else if pre = [] \<or> HasPrefix q pre
          then (if q \<notin> seen then (filtered @ [q], insert q seen) else (filtered, seen))
        else (filtered, seen))"

definition SQSBackend_ListQueues ::
    "Time \<Rightarrow> 'r SQSBackend \<Rightarrow> string \<Rightarrow> 'r
      \<Rightarrow> ((go_error + string list) \<times> 'r SQSBackend \<times> 'r) option" where
  "SQSBackend_ListQueues now b pre r =
     (case sqs b of
        None \<Rightarrow> Some (Inl (Errorf ''sqs backend not initialized'' []), b, r)
      | Some c \<Rightarrow>
          (case SQSClient_ListQueues c pre r of
             None \<Rightarrow> None
           | Some (Inl err, r1) \<Rightarrow> Some (Inl (Wrap ''list queues failed: %w'' [] err), b, r1)
           | Some (Inr queues, r1) \<Rightarrow>
               (let del = purge_expired now (deleted b);
                    acc1 = fold (listed_step del) queues ([], {});
                    acc2 = fold (cached_step del pre) (sorted_list_of_fset (fmdom (cache b))) acc1
                in Some (Inr (sort (fst acc2)), b\<lparr>deleted := del\<rparr>, r1))))"

text \<open>\<open>removeOneQueue\<close> and \<open>RemoveQueue\<close>.\<close>

definition removeOneQueue ::
    "Time \<Rightarrow> 'r SQSClient \<Rightarrow> 'r SQSBackend \<Rightarrow> string \<Rightarrow> 'r
      \<Rightarrow> go_error option \<times> 'r SQSBackend \<times> 'r" where
  "removeOneQueue now c b queueName r =
     (case getQueueURL c b queueName False r of
        (Inl err, b1, r1) \<Rightarrow>
          if isQueueDoesNotExistError err then (None, b1, r1) else (Some err, b1, r1)
      | (Inr u, b1, r1) \<Rightarrow>
          (case SQSClient_DeleteQueue c u r1 of
             (Some err, r2) \<Rightarrow>
               if isQueueDoesNotExistError err
               then (None,
                     b1\<lparr>cache := fmdrop queueName (cache b1),
                        deleted := fmupd queueName (Add now sqsDeletedQueueTTL)
                                     (deleted b1)\<rparr>, r2)
               else (Some err, b1, r2)
           | (None, r2) \<Rightarrow>
               (None,
                b1\<lparr>cache := fmdrop queueName (cache b1),
                   deleted := fmupd queueName (Add now sqsDeletedQueueTTL)
                                (deleted b1)\<rparr>, r2)))"

text \<open>The loop of \<open>RemoveQueue\<close> over all queues; a failure is logged and passed over.\<close>

fun remove_each ::
    "Time \<Rightarrow> 'r SQSClient \<Rightarrow> string list \<Rightarrow> 'r SQSBackend \<Rightarrow> 'r \<Rightarrow> 'r SQSBackend \<times> 'r" where
  "remove_each now c [] b r = (b, r)"
| "remove_each now c (qn # qs) b r =
     (case removeOneQueue now c b qn r of (res, b1, r1) \<Rightarrow> remove_each now c qs b1 r1)"

definition SQSBackend_RemoveQueue ::
    "Time \<Rightarrow> 'r SQSBackend \<Rightarrow> string \<Rightarrow> 'r
      \<Rightarrow> (go_error option \<times> 'r SQSBackend \<times> 'r) option" where
  "SQSBackend_RemoveQueue now b queueName r =
     (case sqs b of
        None \<Rightarrow> Some (Some (Errorf ''sqs backend not initialized'' []), b, r)
      | Some c \<Rightarrow>
          if queueName = []
          then (case SQSClient_ListQueues c [] r of
                  None \<Rightarrow> None
                | Some (Inl err, r1) \<Rightarrow> Some (Some err, b, r1)
                | Some (Inr qs, r1) \<Rightarrow>
                    (case remove_each now c qs b r1 of (b2, r2) \<Rightarrow> Some (None, b2, r2)))
          else if CHR ''/'' \<in> set queueName
            then Some (Some (Errorf ''nested queue name %q is not supported by sqs backend''
                               [queueName]), b, r)
          else Some (removeOneQueue now c b queueName r))"

text \<open>
  A small stand-in for the service, for the examples: the remote state is the list of
  the names of the queues that exist, all of them empty, and every answer comes in one
  page.
\<close>

definition queue_url :: "string \<Rightarrow> string" where
  "queue_url name = ''https://sqs.example/'' @ name"

definition no_such_queue :: go_error where
  "no_such_queue = QueueDoesNotExist ''AWS.SimpleQueueService.NonExistentQueue''"

definition example_sqs :: "string list SQSClient" where
  "example_sqs =
     \<lparr>client_CreateQueue = (\<lambda>name r. (None, if name \<in> set r then r else r @ [name])),
      client_DeleteQueue = (\<lambda>u r.
         if queueNameFromURL u \<in> set r then (None, removeAll (queueNameFromURL u) r)
         else (Some no_such_queue, r)),
      client_PurgeQueue = (\<lambda>u r.
         if queueNameFromURL u \<in> set r then (None, r) else (Some no_such_queue, r)),
      client_GetQueueUrl = (\<lambda>name r.
         if name \<in> set r then (Inr (Some (queue_url name)), r) else (Inl no_such_queue, r)),
      client_ListQueues = (\<lambda>pre token r.
         (Inr (map queue_url (filter (\<lambda>name. HasPrefix name pre) r), None), r)),
      client_GetQueueAttributes = (\<lambda>u r.
         if queueNameFromURL u \<in> set r then (Inr (\<lambda>name. None), r)
         else (Inl no_such_queue, r)),
      client_ReceiveMessage = (\<lambda>input r.
         if queueNameFromURL (QueueUrl input) \<in> set r then (Inr [], r)
         else (Inl no_such_queue, r)),
      client_DeleteMessageBatch = (\<lambda>u entries r. (Inr 0, r)),
      region = ''us-east-1''\<rparr>"

definition example_lib :: go_lib where
  "example_lib =
     \<lparr>time_Parse = (\<lambda>s. None), Sscanf_d = (\<lambda>s. Inl (Errorf ''unexpected EOF'' []))\<rparr>"

definition example_backend :: "string list SQSBackend" where
  "example_backend =
     \<lparr>sqs = Some example_sqs, backendType = ''sqs'', cache = fmempty, deleted = fmempty\<rparr>"

section \<open>The mount router and the capability gate\<close>

text \<open>
  Modelled from the spec: the error taxonomy of the router boundary; the code that
  declares it is not among the sources.
\<close>

datatype fs_error =
    NotFound | AlreadyExists | PermissionDenied | IsDirectory | NotADirectory | NotEmpty
  | InvalidArgument | Unsupported | Timeout | Internal | IOError

text \<open>
  Modelled from the spec: the mount table, whose code is not among the sources. A
  \<open>MountEntry\<close> is \<open>{prefix, provider, config, mountedAt}\<close>; a snapshot of the
  table is the list of its entries, and a mutation returns the next snapshot.
\<close>

record ('p, 'c) MountEntry =
  prefix :: string
  provider :: 'p
  config :: 'c
  mountedAt :: nat

type_synonym ('p, 'c) MountTable = "('p, 'c) MountEntry list"

text \<open>
  Modelled from the spec: the prefix match of \<open>Resolve\<close>, which is on path segments:
  the mounted prefix starts the path and ends where a segment of the path ends, so that
  the mount \<open>/a\<close> matches \<open>/a\<close> and \<open>/a/x\<close> and not \<open>/ab\<close>. Prefixes are
  written without a closing slash.
\<close>

definition segment_prefix :: "string \<Rightarrow> string \<Rightarrow> bool" where
  "segment_prefix pre path \<longleftrightarrow>
     take (length pre) path = pre
     \<and> (length path = length pre \<or> path ! length pre = CHR ''/'')"

text \<open>
  Modelled from the spec: \<open>Resolve\<close>, whose code is not among the sources. Of the
  entries whose prefix matches, one with the longest prefix is taken; the relative path
  is the path with that prefix stripped; with no match the result is \<open>NotFound\<close>.
\<close>

fun longest_prefix :: "('p, 'c) MountEntry list \<Rightarrow> ('p, 'c) MountEntry option" where
  "longest_prefix [] = None"
| "longest_prefix (e # es) =
     (case longest_prefix es of
        None \<Rightarrow> Some e
      | Some e' \<Rightarrow> if length (prefix e) < length (prefix e') then Some e' else Some e)"

definition Resolve :: "('p, 'c) MountTable \<Rightarrow> string \<Rightarrow> fs_error + 'p \<times> string" where
  "Resolve table path =
     (case longest_prefix (filter (\<lambda>e. segment_prefix (prefix e) path) table) of
        None \<Rightarrow> Inl NotFound
      | Some e \<Rightarrow> Inr (provider e, drop (length (prefix e)) path))"

text \<open>
  Modelled from the spec: \<open>Mount\<close>, whose code is not among the sources. It fails
  with \<open>AlreadyExists\<close> when the prefix is mounted exactly; otherwise the provider is
  constructed (by the constructor of the registration surface, a parameter, which may
  fail), and only then the snapshot with the new entry is published. The \<open>MountId\<close>
  it returns is the prefix, which identifies the mount.
\<close>

definition Mount ::
    "(string \<Rightarrow> 'c \<Rightarrow> 's \<Rightarrow> fs_error + 'p) \<Rightarrow> ('p, 'c) MountTable \<Rightarrow> string \<Rightarrow> 's \<Rightarrow> 'c \<Rightarrow> nat
      \<Rightarrow> (fs_error + string) \<times> ('p, 'c) MountTable" where
  "Mount construct table pre providerSpec cfg now =
     (if pre \<in> set (map prefix table) then (Inl AlreadyExists, table)
      else (case construct pre cfg providerSpec of
              Inl err \<Rightarrow> (Inl err, table)
            | Inr p \<Rightarrow>
                (Inr pre,
                 table @ [\<lparr>prefix = pre, provider = p, config = cfg, mountedAt = now\<rparr>])))"

text \<open>
  Modelled from the spec: the plugin instance and the capability gate, whose code is
  not among the sources. Every host-provided service is reached through one entry
  point that checks the name of the service against the capability set of the calling
  instance before any I/O. The service itself is a parameter: it performs the I/O on
  the state \<open>'w\<close> of the world outside the sandbox.
\<close>

datatype plugin_state = Loading | Ready | Draining | Unloaded

record 'm PluginInstance =
  module_code :: 'm
  memory :: "8 word list"
  capabilities :: "string set"
  state :: plugin_state

definition host_call ::
    "(string \<Rightarrow> 'q \<Rightarrow> 'w \<Rightarrow> (fs_error + 'a) \<times> 'w) \<Rightarrow> 'm PluginInstance \<Rightarrow> string \<Rightarrow> 'q \<Rightarrow> 'w
      \<Rightarrow> (fs_error + 'a) \<times> 'w" where
  "host_call service inst name req w =
     (if name \<in> capabilities inst then service name req w else (Inl PermissionDenied, w))"

text \<open>A run of invocations by one instance, in order, with the result of each.\<close>

fun host_calls ::
    "(string \<Rightarrow> 'q \<Rightarrow> 'w \<Rightarrow> (fs_error + 'a) \<times> 'w) \<Rightarrow> 'm PluginInstance \<Rightarrow> (string \<times> 'q) list \<Rightarrow> 'w
      \<Rightarrow> (fs_error + 'a) list \<times> 'w" where
  "host_calls service inst [] w = ([], w)"
| "host_calls service inst ((name, req) # calls) w =
     (case host_call service inst name req w of
        (res, w1) \<Rightarrow>
          (case host_calls service inst calls w1 of (results, w2) \<Rightarrow> (res # results, w2)))"

text \<open>A mock sink for the services: the world is the list of the calls that reached it.\<close>

definition mock_sink :: "string \<Rightarrow> 'q \<Rightarrow> (string \<times> 'q) list \<Rightarrow> (fs_error + unit) \<times> (string \<times> 'q) list" where
  "mock_sink name req w = (Inr (), w @ [(name, req)])"


section \<open>Properties of the HTTP client\<close>

subsection \<open>The combined 64-bit value\<close>

lemma low_mask: "(0xFFFFFFFF :: 64 word) = mask 32"
  by (simp add: mask_eq_exp_minus_1)

lemma response_ptr_alt: "response_ptr r = ucast (take_bit 32 r)"
  by (simp add: response_ptr_def low_mask take_bit_eq_mask)

lemma response_size_alt: "response_size r = ucast (drop_bit 32 r)"
  unfolding response_size_def low_mask
  by (rule bit_word_eqI) (auto simp: bit_simps)

lemma unpack_pack_ptr: "response_ptr (pack_ptr_len p l) = p"
  unfolding response_ptr_alt pack_ptr_len_def
  by (rule bit_word_eqI) (auto simp: bit_simps)

lemma unpack_pack_size: "response_size (pack_ptr_len p l) = l"
  unfolding response_size_alt pack_ptr_len_def
  by (rule bit_word_eqI) (auto simp: bit_simps dest: bit_imp_le_length)

lemma pack_unpack: "pack_ptr_len (response_ptr r) (response_size r) = r"
  unfolding response_size_alt response_ptr_alt pack_ptr_len_def
  by (rule bit_word_eqI) (auto simp: bit_simps)

lemma unat_response_ptr: "unat (response_ptr r) = unat r mod 2 ^ 32"
proof -
  have "unat (response_ptr r) = take_bit 32 (unat r)"
    unfolding response_ptr_alt by (simp add: unsigned_ucast_eq unsigned_take_bit_eq)
  then show ?thesis
    by (simp add: take_bit_eq_mod [where ?'a = nat])
qed

lemma unat_response_size: "unat (response_size r) = unat r div 2 ^ 32"
proof -
  have "unat r < 2 ^ 64"
    using unsigned_less [of r] by simp
  then have "unat r div 2 ^ 32 < 2 ^ 32"
    by (simp add: less_mult_imp_div_less)
  then have "take_bit 32 (drop_bit 32 (unat r)) = unat r div 2 ^ 32"
    by (simp add: drop_bit_eq_div [where ?'a = nat] take_bit_nat_eq_self)
  moreover have "unat (response_size r) = take_bit 32 (drop_bit 32 (unat r))"
    unfolding response_size_alt by (simp add: unsigned_ucast_eq unat_drop_bit_eq)
  ultimately show ?thesis by simp
qed

text \<open>
  C1. The combined value holds the offset in its low 32 bits and the length in its
  high 32 bits, as \<open>Http::request\<close> reads them: unpacking a packed pair gives the
  pair back, every 64-bit value is the packing of the two halves read from it, and
  whatever the length and the memory, a value whose offset is 0 makes
  \<open>Http::request\<close> return the error \<open>HTTP request failed\<close>, never a response: so
  for the packing of offset 0 with any length, and so for any host whose answer has
  the offset 0.
\<close>

theorem packed_result_round_trip:
  "response_ptr (pack_ptr_len p l) = p
   \<and> response_size (pack_ptr_len p l) = l
   \<and> pack_ptr_len (response_ptr r) (response_size r) = r
   \<and> unat (response_ptr r) = unat r mod 2 ^ 32
   \<and> unat (response_size r) = unat r div 2 ^ 32
   \<and> request (\<lambda>j. (pack_ptr_len 0 (len j), mem j)) req
       = Some (Inl (Error_other ''HTTP request failed''))
   \<and> (response_ptr (fst (host (c_str (to_json req)))) = 0
        \<longrightarrow> request host req = Some (Inl (Error_other ''HTTP request failed'')))"
  by (simp add: unpack_pack_ptr unpack_pack_size pack_unpack unat_response_ptr
      unat_response_size request_def case_prod_beta)

theorem packed_result_round_trip_witness:
  "response_ptr (fst ((\<lambda>j. (pack_ptr_len 0 5, ''hello'')) (c_str (to_json (HttpRequest_get ''u''))))) = 0
   \<and> request (\<lambda>j. (pack_ptr_len 0 5, ''hello'')) (HttpRequest_get ''u'')
       = Some (Inl (Error_other ''HTTP request failed''))
   \<and> pack_ptr_len 0 5 = 21474836480"
proof -
  have h: "response_ptr (fst ((\<lambda>j. (pack_ptr_len 0 5, ''hello''))
      (c_str (to_json (HttpRequest_get ''u''))))) = 0"
    by (simp add: unpack_pack_ptr)
  have v: "pack_ptr_len 0 5 = 21474836480"
    by (simp add: pack_ptr_len_def)
  from packed_result_round_trip [where host = "\<lambda>j. (pack_ptr_len 0 5, ''hello'')"
      and req = "HttpRequest_get ''u''", THEN conjunct2, THEN conjunct2, THEN conjunct2, THEN conjunct2,
      THEN conjunct2, THEN conjunct2, THEN mp, OF h]
  have "request (\<lambda>j. (pack_ptr_len 0 5, ''hello'')) (HttpRequest_get ''u'')
       = Some (Inl (Error_other ''HTTP request failed''))" .
  with h v show ?thesis by blast
qed

subsection \<open>The serialized request\<close>

lemma append_single: "(@) [c] = (#) c"
  by (rule ext) simp

lemma join_with_Cons: "join_with sep (x # xs) = x @ concat (map (\<lambda>y. sep @ y) xs)"
  by (induction xs arbitrary: x) auto

lemma headers_json_False:
  "headers_json False kvs =
     concat (map (\<lambda>y. '','' @ y) (map (\<lambda>(k, v). json_string k @ '':'' @ json_string v) kvs))"
  by (induction kvs) (auto simp: json_string_def)

lemma headers_json_True:
  "headers_json True kvs =
     join_with '','' (map (\<lambda>(k, v). json_string k @ '':'' @ json_string v) kvs)"
proof (cases kvs)
  case Nil
  then show ?thesis by simp
next
  case (Cons kv rest)
  obtain k v where kv: "kv = (k, v)" by (cases kv)
  show ?thesis
    unfolding Cons kv list.map join_with_Cons
    by (simp add: headers_json_False json_string_def append_single)
qed

lemma body_json_Suc:
  "body_json (Suc i) bs = concat (map (\<lambda>y. '','' @ y) (map (\<lambda>b. to_string (uint b)) bs))"
  by (induction bs arbitrary: i) auto

lemma body_json_0:
  "body_json 0 bs = join_with '','' (map (\<lambda>b. to_string (uint b)) bs)"
proof (cases bs)
  case Nil
  then show ?thesis by simp
next
  case (Cons b rest)
  show ?thesis
    unfolding Cons list.map join_with_Cons
    using body_json_Suc [of 0 rest] by (simp add: append_single)
qed

lemma to_string_30: "to_string 30 = ''30''"
  by (simp add: to_string_def decimal.simps)

lemma map_assign_keys: "fst ` set (map_assign k v kvs) = insert k (fst ` set kvs)"
  by (induction k v kvs rule: map_assign.induct) (simp_all add: insert_commute)

lemma map_assign_sorted:
  "sorted_wrt (<) (map fst kvs) \<Longrightarrow> sorted_wrt (<) (map fst (map_assign k v kvs))"
proof (induction kvs)
  case Nil
  then show ?case by simp
next
  case (Cons kv kvs)
  obtain k' v' where kv: "kv = (k', v')" by (cases kv)
  from Cons.prems have below: "\<forall>x \<in> fst ` set kvs. k' < x"
    and rest: "sorted_wrt (<) (map fst kvs)"
    by (auto simp: kv)
  show ?case
  proof (cases "k = k'")
    case True
    then show ?thesis using Cons.prems by (simp add: kv)
  next
    case False
    show ?thesis
    proof (cases "k < k'")
      case True
      then show ?thesis using Cons.prems False by (auto simp: kv)
    next
      case ge: False
      with False have "k' < k" by simp
      with below have "\<forall>x \<in> fst ` set (map_assign k v kvs). k' < x"
        by (simp add: map_assign_keys)
      with Cons.IH [OF rest] False ge show ?thesis
        by (simp add: kv)
    qed
  qed
qed

lemma map_assign_lookup: "map_of (map_assign k v kvs) = (map_of kvs)(k \<mapsto> v)"
  by (induction kvs) (auto simp: fun_upd_twist)

lemma built_request_sorted: "built_request req \<Longrightarrow> sorted_wrt (<) (map fst (headers req))"
  by (induction rule: built_request.induct)
    (simp_all add: HttpRequest_default_def HttpRequest_get_def HttpRequest_post_def
      HttpRequest_put_def HttpRequest_del_def set_method_def add_header_def set_body_def
      set_body_string_def set_timeout_def map_assign_sorted)

lemma find_at_Some:
  "find_at needle s i = Some j \<Longrightarrow> \<exists>pre post. s = pre @ needle @ post"
proof (induction s arbitrary: i)
  case Nil
  then show ?case by (simp split: if_splits)
next
  case (Cons c cs)
  show ?case
  proof (cases "take (length needle) (c # cs) = needle")
    case True
    then have "c # cs = [] @ needle @ drop (length needle) (c # cs)"
      by (metis append_Nil append_take_drop_id)
    then show ?thesis by blast
  next
    case False
    with Cons.prems have "find_at needle cs (Suc i) = Some j" by simp
    from Cons.IH [OF this] obtain pre post where "cs = pre @ needle @ post" by blast
    then have "c # cs = (c # pre) @ needle @ post" by simp
    then show ?thesis by blast
  qed
qed

lemma find_at_here: "find_at needle (needle @ post) i = Some i"
proof (cases "needle @ post")
  case Nil
  then show ?thesis by simp
next
  case (Cons c cs)
  have "take (length needle) (needle @ post) = needle" by simp
  then show ?thesis unfolding Cons by simp
qed

lemma find_at_complete: "find_at needle (pre @ needle @ post) i \<noteq> None"
  by (induction pre arbitrary: i) (simp_all add: find_at_here)

lemma has_field_iff:
  \<open>has_field json name \<longleftrightarrow> (\<exists>pre post. json = pre @ ''"'' @ name @ ''":'' @ post)\<close>
proof
  assume "has_field json name"
  then obtain j where \<open>find_at (''"'' @ name @ ''":'') json 0 = Some j\<close>
    by (auto simp: has_field_def str_find_def)
  from find_at_Some [OF this] show \<open>\<exists>pre post. json = pre @ ''"'' @ name @ ''":'' @ post\<close>
    by simp
next
  assume \<open>\<exists>pre post. json = pre @ ''"'' @ name @ ''":'' @ post\<close>
  then obtain pre post where \<open>json = pre @ (''"'' @ name @ ''":'') @ post\<close> by auto
  then show "has_field json name"
    using find_at_complete [of \<open>''"'' @ name @ ''":''\<close> pre post 0]
    by (simp add: has_field_def str_find_def)
qed

lemma pieces_not_Nil: "pieces sep s \<noteq> []"
  by (cases s) auto

lemma pieces_append: "pieces sep (a @ sep # b) = pieces sep a @ pieces sep b"
proof (induction a)
  case Nil
  then show ?case by simp
next
  case (Cons c a)
  then show ?case
    using pieces_not_Nil [of sep a] by (cases "pieces sep a") auto
qed

lemma pieces_plain: "sep \<notin> set a \<Longrightarrow> pieces sep a = [a]"
  by (induction a) auto

lemma pieces_concat:
  "list_all (\<lambda>c. sep \<notin> set c) (x # xs)
   \<Longrightarrow> pieces sep (x @ concat (map (\<lambda>y. [sep] @ y) xs)) = x # xs"
proof (induction xs arbitrary: x)
  case Nil
  then show ?case by (simp add: pieces_plain)
next
  case (Cons y ys)
  from Cons.prems have x: "sep \<notin> set x" and r: "list_all (\<lambda>c. sep \<notin> set c) (y # ys)"
    by simp_all
  have "pieces sep (x @ concat (map (\<lambda>y. [sep] @ y) (y # ys)))
      = pieces sep (x @ sep # (y @ concat (map (\<lambda>y. [sep] @ y) ys)))"
    by simp
  also have "\<dots> = pieces sep x @ pieces sep (y @ concat (map (\<lambda>y. [sep] @ y) ys))"
    by (rule pieces_append)
  also have "\<dots> = x # y # ys"
    using x Cons.IH [OF r] by (simp add: pieces_plain)
  finally show ?case .
qed

lemma pieces_join:
  "cs \<noteq> [] \<Longrightarrow> list_all (\<lambda>c. sep \<notin> set c) cs \<Longrightarrow> pieces sep (join_with [sep] cs) = cs"
  by (cases cs) (simp_all only: join_with_Cons pieces_concat list.simps)

lemma colon_keys_Cons: "set (colon_keys zs) \<subseteq> set (colon_keys (x # zs))"
  by (cases zs) auto

lemma colon_keys_mem: "take 1 y = '':'' \<Longrightarrow> n \<in> set (colon_keys (xs @ n # y # ys))"
proof (induction xs)
  case Nil
  then show ?case by simp
next
  case (Cons x xs)
  then show ?case using colon_keys_Cons [of "xs @ n # y # ys" x] by auto
qed

lemma has_field_colon_key:
  assumes "no_quote name" and "has_field json name"
  shows "name \<in> set (colon_keys (pieces (CHR 0x22) json))"
proof -
  from assms(2) obtain pre post where
    j: \<open>json = pre @ CHR 0x22 # (name @ CHR 0x22 # (CHR '':'' # post))\<close>
    by (auto simp: has_field_iff)
  obtain p ps where p: "pieces (CHR 0x22) post = p # ps"
    using pieces_not_Nil [of "CHR 0x22" post] by (cases "pieces (CHR 0x22) post") auto
  have "pieces (CHR 0x22) json
      = pieces (CHR 0x22) pre @ name # (CHR '':'' # p) # ps"
    unfolding j pieces_append using assms(1) by (simp add: pieces_plain no_quote_def p)
  then show ?thesis
    by (simp add: colon_keys_mem)
qed

lemma header_chunks_text:
  \<open>concat (map ((#) (CHR 0x22)) (header_chunks (kv # kvs)))
     = ''"'' @ fst kv @ ''":"'' @ snd kv @ ''"'' @ headers_json False kvs @ ''},''\<close>
proof (induction kvs arbitrary: kv)
  case Nil
  then show ?case by (cases kv) simp
next
  case (Cons kv' kvs)
  show ?case
    using Cons.IH [of kv'] by (cases kv; cases kv') simp
qed

lemma to_json_chunks: "to_json req = join_with [CHR 0x22] (request_chunks req)"
proof (cases "headers req")
  case Nil
  then show ?thesis
    by (simp add: to_json_def request_chunks_def)
next
  case (Cons kv kvs)
  have h: \<open>headers_json True (kv # kvs)
      = ''"'' @ fst kv @ ''":"'' @ snd kv @ ''"'' @ headers_json False kvs\<close>
    by (cases kv) simp
  show ?thesis
    unfolding to_json_def request_chunks_def Cons h
    by (simp add: join_with_Cons header_chunks_text del: header_chunks.simps)
qed

lemma no_quote_decimal: "no_quote (decimal n)"
proof (induction n rule: decimal.induct)
  case (1 n)
  have d: "m < 10 \<Longrightarrow> ''0123456789'' ! m \<noteq> CHR 0x22" for m :: nat
  proof -
    assume "m < 10"
    then have "''0123456789'' ! m \<in> set ''0123456789''"
      by (intro nth_mem) simp
    then show ?thesis by auto
  qed
  show ?case
  proof (cases "n < 10")
    case True
    then show ?thesis
      using d [of n] by (subst decimal.simps) (simp add: no_quote_def)
  next
    case False
    with 1 have "no_quote (decimal (n div 10))" by simp
    then show ?thesis
      using False d [of "n mod 10"] by (subst decimal.simps) (simp add: no_quote_def)
  qed
qed

lemma no_quote_to_string: "no_quote (to_string i)"
  using no_quote_decimal [of "nat i"] no_quote_decimal [of "nat (- i)"]
  by (simp add: to_string_def no_quote_def)

lemma no_quote_body_json: "no_quote (body_json i bs)"
  using no_quote_to_string by (induction bs arbitrary: i) (auto simp: no_quote_def)

lemma no_quote_header_chunks:
  "list_all (\<lambda>(k, v). no_quote k \<and> no_quote v) kvs \<Longrightarrow> list_all no_quote (header_chunks kvs)"
  by (induction kvs rule: header_chunks.induct) (simp_all add: no_quote_def)

lemma no_quote_request_chunks:
  "plain_strings req \<Longrightarrow> list_all no_quote (request_chunks req)"
  using no_quote_body_json [of 0 "body req"] no_quote_to_string [of "sint (timeout req)"]
  by (simp add: plain_strings_def request_chunks_def no_quote_header_chunks)
    (simp add: no_quote_def)

lemma pieces_to_json:
  assumes "plain_strings req"
  shows "pieces (CHR 0x22) (to_json req) = request_chunks req"
proof -
  have "request_chunks req \<noteq> []"
    by (simp add: request_chunks_def)
  moreover have "list_all (\<lambda>c. CHR 0x22 \<notin> set c) (request_chunks req)"
    using no_quote_request_chunks [OF assms] by (simp add: no_quote_def [abs_def])
  ultimately show ?thesis
    unfolding to_json_chunks by (rule pieces_join)
qed

lemma colon_keys_header_chunks:
  "kvs \<noteq> []
   \<Longrightarrow> set (colon_keys (x # header_chunks kvs @ [''body'', b, ''timeout'', t]))
       \<subseteq> {x, '':'', '','', ''body'', ''timeout''} \<union> fst ` set kvs"
proof (induction kvs arbitrary: x rule: header_chunks.induct)
  case 1
  then show ?case by simp
next
  case (2 k v)
  then show ?case by auto
next
  case (3 k v kv kvs)
  have "set (colon_keys ('','' # header_chunks (kv # kvs) @ [''body'', b, ''timeout'', t]))
       \<subseteq> {'','', '':'', '','', ''body'', ''timeout''} \<union> fst ` set (kv # kvs)"
    by (rule 3) simp
  then show ?case
    by (auto simp del: header_chunks.simps(3) simp add: header_chunks.simps(3) [of k v kv kvs])
qed

lemma colon_keys_keep:
  "set (colon_keys (y # zs)) \<subseteq> S \<Longrightarrow> x \<in> S \<Longrightarrow> set (colon_keys (x # y # zs)) \<subseteq> S"
  by simp

lemma colon_keys_skip:
  "set (colon_keys (y # zs)) \<subseteq> S \<Longrightarrow> take 1 y \<noteq> '':'' \<Longrightarrow> set (colon_keys (x # y # zs)) \<subseteq> S"
  by simp

lemma colon_keys_request_chunks:
  "set (colon_keys (request_chunks req))
     \<subseteq> {''{'', ''method'', ''url'', ''headers'', ''body'', ''timeout'', '':'', '','', '':{''}
        \<union> fst ` set (headers req)"
  (is "_ \<subseteq> ?S")
proof -
  let ?b = \<open>'':['' @ body_json 0 (body req) @ ''],''\<close>
  let ?t = \<open>'':'' @ to_string (sint (timeout req)) @ ''}''\<close>
  let ?tail = "(if headers req = [] then ['':{},''] else '':{'' # header_chunks (headers req))
     @ [''body'', ?b, ''timeout'', ?t]"
  have "set (colon_keys (''headers'' # ?tail)) \<subseteq> ?S"
  proof (cases "headers req = []")
    case True
    then show ?thesis by simp
  next
    case False
    have "{'':{'', '':'', '','', ''body'', ''timeout''} \<union> fst ` set (headers req) \<subseteq> ?S"
    proof (rule Un_least)
      show "{'':{'', '':'', '','', ''body'', ''timeout''} \<subseteq> ?S" by simp
      show "fst ` set (headers req) \<subseteq> ?S" by (rule Un_upper2)
    qed
    with colon_keys_header_chunks [OF False, of "'':{''" ?b ?t]
    have "set (colon_keys ('':{'' # header_chunks (headers req) @ [''body'', ?b, ''timeout'', ?t]))
        \<subseteq> ?S"
      by (rule subset_trans)
    then have "set (colon_keys (''headers'' # '':{'' # header_chunks (headers req)
        @ [''body'', ?b, ''timeout'', ?t])) \<subseteq> ?S"
      by (rule colon_keys_keep) simp
    with False show ?thesis by simp
  qed
  then have "set (colon_keys ('','' # ''headers'' # ?tail)) \<subseteq> ?S"
    by (rule colon_keys_keep) simp
  then have "set (colon_keys (url req # '','' # ''headers'' # ?tail)) \<subseteq> ?S"
    by (rule colon_keys_skip) simp
  then have "set (colon_keys ('':'' # url req # '','' # ''headers'' # ?tail)) \<subseteq> ?S"
    by (rule colon_keys_keep) simp
  then have "set (colon_keys (''url'' # '':'' # url req # '','' # ''headers'' # ?tail)) \<subseteq> ?S"
    by (rule colon_keys_keep) simp
  then have "set (colon_keys ('','' # ''url'' # '':'' # url req # '','' # ''headers'' # ?tail))
      \<subseteq> ?S"
    by (rule colon_keys_keep) simp
  then have "set (colon_keys (method_name req # '','' # ''url'' # '':'' # url req # '',''
      # ''headers'' # ?tail)) \<subseteq> ?S"
    by (rule colon_keys_skip) simp
  then have "set (colon_keys ('':'' # method_name req # '','' # ''url'' # '':'' # url req # '',''
      # ''headers'' # ?tail)) \<subseteq> ?S"
    by (rule colon_keys_keep) simp
  then have "set (colon_keys (''method'' # '':'' # method_name req # '','' # ''url'' # '':''
      # url req # '','' # ''headers'' # ?tail)) \<subseteq> ?S"
    by (rule colon_keys_keep) simp
  then have "set (colon_keys (''{'' # ''method'' # '':'' # method_name req # '','' # ''url''
      # '':'' # url req # '','' # ''headers'' # ?tail)) \<subseteq> ?S"
    by (rule colon_keys_keep) simp
  moreover have "request_chunks req = ''{'' # ''method'' # '':'' # method_name req # '',''
      # ''url'' # '':'' # url req # '','' # ''headers'' # ?tail"
    by (simp only: request_chunks_def append_Cons append_Nil)
  ultimately show ?thesis
    by (simp only:)
qed

lemma spec_names_absent:
  assumes "plain_strings req"
    and "name \<in> {''path'', ''offset'', ''size'', ''timeoutSeconds''}"
    and "name \<notin> fst ` set (headers req)"
  shows "\<not> has_field (to_json req) name"
proof
  assume h: "has_field (to_json req) name"
  from assms(2) have "no_quote name"
    by (auto simp: no_quote_def)
  from has_field_colon_key [OF this h] have "name \<in> set (colon_keys (request_chunks req))"
    by (simp add: pieces_to_json [OF assms(1)])
  from subsetD [OF colon_keys_request_chunks this] assms(3) have
    n: "name \<in> {''{'', ''method'', ''url'', ''headers'', ''body'', ''timeout'', '':'', '','', '':{''}"
    by simp
  from assms(2) consider "name = ''path''" | "name = ''offset''" | "name = ''size''"
    | "name = ''timeoutSeconds''"
    by auto
  then show False
  proof cases
    case 1
    with n show False by simp
  next
    case 2
    with n show False by simp
  next
    case 3
    with n show False by simp
  next
    case 4
    with n show False by simp
  qed
qed

lemma own_names_present:
  "list_all (has_field (to_json req)) [''method'', ''url'', ''headers'', ''body'', ''timeout'']"
proof -
  have \<open>has_field (to_json req) ''method''\<close>
    unfolding has_field_iff to_json_def
    by (intro exI [of _ "''{''"] exI) simp
  moreover have \<open>has_field (to_json req) ''url''\<close>
    unfolding has_field_iff to_json_def
    by (intro exI [of _ \<open>''{'' @ ''"method":"'' @ method_name req @ ''",''\<close>] exI) simp
  moreover have \<open>has_field (to_json req) ''headers''\<close>
    unfolding has_field_iff to_json_def
    by (intro exI [of _ \<open>''{'' @ ''"method":"'' @ method_name req @ ''",''
         @ ''"url":"'' @ url req @ ''",''\<close>] exI) simp
  moreover have \<open>has_field (to_json req) ''body''\<close>
    unfolding has_field_iff to_json_def
    by (intro exI [of _ \<open>''{'' @ ''"method":"'' @ method_name req @ ''",''
         @ ''"url":"'' @ url req @ ''",'' @ ''"headers":{''
         @ headers_json True (headers req) @ ''},''\<close>] exI) simp
  moreover have \<open>has_field (to_json req) ''timeout''\<close>
    unfolding has_field_iff to_json_def
    by (intro exI [of _ \<open>''{'' @ ''"method":"'' @ method_name req @ ''",''
         @ ''"url":"'' @ url req @ ''",'' @ ''"headers":{''
         @ headers_json True (headers req) @ ''},''
         @ ''"body":['' @ body_json 0 (body req) @ ''],''\<close>] exI) simp
  ultimately show ?thesis by simp
qed

text \<open>
  C5, as the spec states it, fails: the request \<open>HttpRequest::get("u")\<close> serializes
  to the text below, which has no member \<open>path\<close>, \<open>offset\<close>, \<open>size\<close> or
  \<open>timeoutSeconds\<close>.
\<close>

theorem envelope_fields_counterexample:
  \<open>to_json (HttpRequest_get ''u'')
     = ''{"method":"GET","url":"u","headers":{},"body":[],"timeout":30}''
   \<and> \<not> has_field (to_json (HttpRequest_get ''u'')) ''path''
   \<and> \<not> has_field (to_json (HttpRequest_get ''u'')) ''offset''
   \<and> \<not> has_field (to_json (HttpRequest_get ''u'')) ''size''
   \<and> \<not> has_field (to_json (HttpRequest_get ''u'')) ''timeoutSeconds''
   \<and> \<not> list_all (has_field (to_json (HttpRequest_get ''u''))) envelope_fields\<close>
  by (simp add: to_json_def HttpRequest_get_def HttpRequest_default_def to_string_30
      has_field_def str_find_def envelope_fields_def)

text \<open>
  C5, amended. The serializer of the guest SDK writes the text of a JSON object with
  the five members \<open>method\<close>, \<open>url\<close>, \<open>headers\<close>, \<open>body\<close> and
  \<open>timeout\<close>, in this order: \<open>method\<close> and \<open>url\<close> are the request's
  strings between double quotes, copied without escaping; \<open>headers\<close> is an object
  with one such string member per header entry, in the order of the entries;
  \<open>body\<close> is an array of the byte values; \<open>timeout\<close> is the seconds. Each of
  the five names occurs in the text as a quoted name followed by a colon. The header
  entries of a request built by the factory functions and the setters are in strictly
  ascending key order, hence one per key; \<open>add_header\<close> keeps that order, and after
  it the key carries the added value and every other key the value it had. For a
  request whose method, url and header keys and values hold no double quote, none of
  \<open>path\<close>, \<open>offset\<close>, \<open>size\<close> and \<open>timeoutSeconds\<close> occurs in the text as a
  quoted name followed by a colon, unless it is the key of a header.
\<close>

theorem to_json_shape:
  "to_json req =
     json_object
       [(''method'', json_string (method_name req)),
        (''url'', json_string (url req)),
        (''headers'', json_object (map (\<lambda>(k, v). (k, json_string v)) (headers req))),
        (''body'', json_array (map (\<lambda>b. to_string (uint b)) (body req))),
        (''timeout'', to_string (sint (timeout req)))]
   \<and> list_all (has_field (to_json req)) [''method'', ''url'', ''headers'', ''body'', ''timeout'']
   \<and> (built_request req \<longrightarrow> sorted_wrt (<) (map fst (headers req)))
   \<and> (sorted_wrt (<) (map fst (headers req))
        \<longrightarrow> sorted_wrt (<) (map fst (headers (add_header key val req))))
   \<and> map_of (headers (add_header key val req)) = (map_of (headers req))(key \<mapsto> val)
   \<and> (plain_strings req \<and> name \<in> {''path'', ''offset'', ''size'', ''timeoutSeconds''}
          \<and> name \<notin> fst ` set (headers req)
        \<longrightarrow> \<not> has_field (to_json req) name)"
proof -
  have 1: "to_json req =
     json_object
       [(''method'', json_string (method_name req)),
        (''url'', json_string (url req)),
        (''headers'', json_object (map (\<lambda>(k, v). (k, json_string v)) (headers req))),
        (''body'', json_array (map (\<lambda>b. to_string (uint b)) (body req))),
        (''timeout'', to_string (sint (timeout req)))]"
    by (simp add: to_json_def json_object_def json_array_def headers_json_True body_json_0
        json_string_def case_prod_unfold comp_def)
  have 2: "list_all (has_field (to_json req))
      [''method'', ''url'', ''headers'', ''body'', ''timeout'']"
    by (rule own_names_present)
  have 3: "built_request req \<longrightarrow> sorted_wrt (<) (map fst (headers req))"
    by (simp add: built_request_sorted)
  have 4: "sorted_wrt (<) (map fst (headers req))
        \<longrightarrow> sorted_wrt (<) (map fst (headers (add_header key val req)))"
    by (simp add: add_header_def map_assign_sorted)
  have 5: "map_of (headers (add_header key val req)) = (map_of (headers req))(key \<mapsto> val)"
    by (simp add: add_header_def map_assign_lookup)
  have 6: "plain_strings req \<and> name \<in> {''path'', ''offset'', ''size'', ''timeoutSeconds''}
          \<and> name \<notin> fst ` set (headers req)
        \<longrightarrow> \<not> has_field (to_json req) name"
    using spec_names_absent [of req name] by (intro impI) (elim conjE)
  show ?thesis
    by (intro conjI 1 2 3 4 5 6)
qed

theorem to_json_shape_witness:
  \<open>built_request (add_header ''b'' ''2'' (add_header ''a'' ''1'' (HttpRequest_post ''u'')))
   \<and> plain_strings (add_header ''b'' ''2'' (add_header ''a'' ''1'' (HttpRequest_post ''u'')))
   \<and> headers (add_header ''b'' ''2'' (add_header ''a'' ''1'' (HttpRequest_post ''u'')))
       = [(''a'', ''1''), (''b'', ''2'')]
   \<and> sorted_wrt (<)
       (map fst (headers (add_header ''b'' ''2'' (add_header ''a'' ''1'' (HttpRequest_post ''u'')))))
   \<and> sorted_wrt (<)
       (map fst (headers (add_header ''a'' ''9''
          (add_header ''b'' ''2'' (add_header ''a'' ''1'' (HttpRequest_post ''u''))))))
   \<and> headers (add_header ''a'' ''9''
        (add_header ''b'' ''2'' (add_header ''a'' ''1'' (HttpRequest_post ''u''))))
       = [(''a'', ''9''), (''b'', ''2'')]
   \<and> to_json (add_header ''b'' ''2'' (add_header ''a'' ''1'' (HttpRequest_post ''u'')))
       = ''{"method":"POST","url":"u","headers":{"a":"1","b":"2"},"body":[],"timeout":30}''
   \<and> \<not> has_field
         (to_json (add_header ''b'' ''2'' (add_header ''a'' ''1'' (HttpRequest_post ''u''))))
         ''path''\<close>
proof -
  let ?r = "add_header ''b'' ''2'' (add_header ''a'' ''1'' (HttpRequest_post ''u''))"
  note t = to_json_shape [where req = ?r and key = "''a''" and val = "''9''"
      and name = "''path''"]
  have b: "built_request ?r"
    by (intro built_request.add_header built_request.post)
  have h: "headers ?r = [(''a'', ''1''), (''b'', ''2'')]"
    by (simp add: add_header_def HttpRequest_post_def HttpRequest_default_def)
  have p: "plain_strings ?r"
    unfolding plain_strings_def h
    by (simp add: add_header_def HttpRequest_post_def HttpRequest_default_def no_quote_def)
  have s: "sorted_wrt (<) (map fst (headers ?r))"
    using t [THEN conjunct2, THEN conjunct2, THEN conjunct1, THEN mp, OF b] .
  have s': "sorted_wrt (<) (map fst (headers (add_header ''a'' ''9'' ?r)))"
    using t [THEN conjunct2, THEN conjunct2, THEN conjunct2, THEN conjunct1, THEN mp, OF s] .
  have n: "''path'' \<in> {''path'', ''offset'', ''size'', ''timeoutSeconds''}"
    by simp
  have k: "''path'' \<notin> fst ` set (headers ?r)"
    unfolding h by simp
  have a: "\<not> has_field (to_json ?r) ''path''"
    using t [THEN conjunct2, THEN conjunct2, THEN conjunct2, THEN conjunct2, THEN conjunct2,
        THEN mp, OF conjI [OF p conjI [OF n k]]] .
  have h': "headers (add_header ''a'' ''9'' ?r) = [(''a'', ''9''), (''b'', ''2'')]"
    by (simp add: add_header_def HttpRequest_post_def HttpRequest_default_def)
  have j: \<open>to_json ?r
       = ''{"method":"POST","url":"u","headers":{"a":"1","b":"2"},"body":[],"timeout":30}''\<close>
    by (simp add: to_json_def add_header_def HttpRequest_post_def HttpRequest_default_def
        to_string_30)
  show ?thesis
    by (intro conjI b p h s s' h' j a)
qed

subsection \<open>The timeout\<close>

lemma no_explicit_timeout_30: "no_explicit_timeout req \<Longrightarrow> timeout req = 30"
  by (induction rule: no_explicit_timeout.induct)
    (simp_all add: HttpRequest_default_def HttpRequest_get_def HttpRequest_post_def
      HttpRequest_put_def HttpRequest_del_def set_method_def add_header_def set_body_def
      set_body_string_def)

text \<open>
  C6. A request built by the factory functions and the setters other than
  \<open>set_timeout\<close> has the timeout 30, and its serialization ends in that member;
  after \<open>set_timeout seconds\<close> the serialization is the same text with
  \<open>seconds\<close> in place of 30.
\<close>

theorem default_timeout_30:
  assumes "no_explicit_timeout req"
  shows \<open>timeout req = 30
    \<and> (\<exists>pre. to_json req = pre @ ''"timeout":30}''
          \<and> (\<forall>seconds. to_json (set_timeout seconds req)
                 = pre @ ''"timeout":'' @ to_string (sint seconds) @ ''}''))\<close>
proof -
  have t: "timeout req = 30"
    using assms by (rule no_explicit_timeout_30)
  let ?pre = \<open>''{'' @ ''"method":"'' @ method_name req @ ''",'' @ ''"url":"'' @ url req @ ''",''
     @ ''"headers":{'' @ headers_json True (headers req) @ ''},''
     @ ''"body":['' @ body_json 0 (body req) @ ''],''\<close>
  have \<open>to_json req = ?pre @ ''"timeout":30}''\<close>
    by (simp add: to_json_def t to_string_30)
  moreover have \<open>\<forall>seconds. to_json (set_timeout seconds req)
      = ?pre @ ''"timeout":'' @ to_string (sint seconds) @ ''}''\<close>
    by (simp add: to_json_def set_timeout_def)
  ultimately show ?thesis
    using t by blast
qed

theorem default_timeout_30_witness:
  \<open>no_explicit_timeout (add_header ''Accept'' ''text/plain'' (HttpRequest_get ''u''))
   \<and> timeout (add_header ''Accept'' ''text/plain'' (HttpRequest_get ''u'')) = 30
   \<and> to_json (add_header ''Accept'' ''text/plain'' (HttpRequest_get ''u''))
       = ''{"method":"GET","url":"u","headers":{"Accept":"text/plain"},"body":[],"timeout":30}''
   \<and> to_json (set_timeout 60 (add_header ''Accept'' ''text/plain'' (HttpRequest_get ''u'')))
       = ''{"method":"GET","url":"u","headers":{"Accept":"text/plain"},"body":[],"timeout":60}''\<close>
proof -
  have h: "no_explicit_timeout (add_header ''Accept'' ''text/plain'' (HttpRequest_get ''u''))"
    by (intro no_explicit_timeout.add_header no_explicit_timeout.get)
  have s: "to_string 60 = ''60''"
    by (simp add: to_string_def decimal.simps)
  show ?thesis
    using h default_timeout_30 [OF h, THEN conjunct1]
    by (simp add: to_json_def set_timeout_def add_header_def HttpRequest_get_def
        HttpRequest_default_def to_string_30 s)
qed

section \<open>Properties of the example providers\<close>

text \<open>
  C7, as the spec states it, fails: the file of \<open>HelloFS\<close> has 14 bytes, and a read
  at offset 14 returns all 14 of them, not an empty result.
\<close>

theorem read_past_end_counterexample:
  "HelloFS_read ''/hello.txt'' 14 1 = Inr hello_content
   \<and> length hello_content = 14
   \<and> HelloFS_read ''/hello.txt'' 14 1 \<noteq> Inr []"
  by (simp add: HelloFS_read_def hello_content_def)

text \<open>
  C7, amended. The two example providers ignore the offset and the size: a read at any
  offset, at or beyond the end of the data included, returns what the read at offset
  0 returns, which for the file of \<open>HelloFS\<close> is its whole content and not an error.
\<close>

theorem example_reads_ignore_offset:
  "HelloFS_read path offset sz = HelloFS_read path 0 0
   \<and> HelloFS_read ''/hello.txt'' offset sz = Inr hello_content
   \<and> length hello_content = 14
   \<and> HttpTestFS_read host path offset sz = HttpTestFS_read host path 0 0"
  by (simp add: HelloFS_read_def HttpTestFS_read_def hello_content_def)

section \<open>Properties of the SQS backend\<close>

subsection \<open>The count asked of the service\<close>

lemma not_10_less_1: "\<not> (10 :: 32 word) <s 1"
  by (simp add: word_sless_alt)

lemma receive_input_max:
  "MaxNumberOfMessages (receive_input queueURL maxMessages autoDelete) =
     (if maxMessages <s 1 then 1 else if 10 <s maxMessages then 10 else maxMessages)"
  by (simp add: receive_input_def Let_def not_10_less_1)

lemma max_low: "1 \<le>s MaxNumberOfMessages (receive_input queueURL maxMessages autoDelete)"
  by (simp add: receive_input_max word_sle_eq word_sless_alt)

lemma max_high: "MaxNumberOfMessages (receive_input queueURL maxMessages autoDelete) \<le>s 10"
  by (simp add: receive_input_max word_sle_eq word_sless_alt)

lemma ReceiveMessages_ignores_other_counts:
  "SQSClient_ReceiveMessages
     (c\<lparr>client_ReceiveMessage := (\<lambda>input.
          if 1 \<le>s MaxNumberOfMessages input \<and> MaxNumberOfMessages input \<le>s 10
          then client_ReceiveMessage c input else other input)\<rparr>)
     lib now queueURL maxMessages autoDelete r
   = SQSClient_ReceiveMessages c lib now queueURL maxMessages autoDelete r"
  by (simp add: SQSClient_ReceiveMessages_def max_low max_high
      cong: prod.case_cong sum.case_cong if_cong)

lemma spy_ReceiveMessage:
  "client_ReceiveMessage (spy_client c) input (r, asked) =
     (fst (client_ReceiveMessage c input r), snd (client_ReceiveMessage c input r),
      asked @ [input])"
  by (simp add: spy_client_def case_prod_beta)

lemma spy_DeleteMessageBatch:
  "client_DeleteMessageBatch (spy_client c) u entries (r, asked) =
     (fst (client_DeleteMessageBatch c u entries r),
      snd (client_DeleteMessageBatch c u entries r), asked)"
  by (simp add: spy_client_def case_prod_beta)

lemma spy_ReceiveMessages:
  "SQSClient_ReceiveMessages (spy_client c) lib now queueURL maxMessages autoDelete (r, asked) =
     (fst (SQSClient_ReceiveMessages c lib now queueURL maxMessages autoDelete r),
      snd (SQSClient_ReceiveMessages c lib now queueURL maxMessages autoDelete r),
      if queueURL = [] then asked
      else asked @ [receive_input queueURL maxMessages autoDelete])"
  by (simp add: SQSClient_ReceiveMessages_def spy_ReceiveMessage spy_DeleteMessageBatch
      case_prod_beta Let_def split: sum.splits)

text \<open>
  C10. Whatever \<open>maxMessages\<close> is, \<open>ReceiveMessages\<close> with a queue URL asks the
  service exactly once, and the count it asks for is \<open>maxMessages\<close> raised to 1 when
  below 1 and lowered to 10 when above 10, so between 1 and 10; this is what a service
  that records its inputs has recorded after the call, and that service is otherwise
  not told apart from the one it records for. With the empty URL nothing is asked. The
  same is shown of the input \<open>ReceiveMessages\<close> builds, and what the service would
  answer to any other count has no effect on \<open>ReceiveMessages\<close>.
\<close>

theorem ReceiveMessages_count_in_range:
  "(queueURL \<noteq> [] \<longrightarrow>
      snd (snd (SQSClient_ReceiveMessages (spy_client c) lib now queueURL maxMessages
                  autoDelete (r, [])))
        = [receive_input queueURL maxMessages autoDelete]
      \<and> map MaxNumberOfMessages
            (snd (snd (SQSClient_ReceiveMessages (spy_client c) lib now queueURL maxMessages
                         autoDelete (r, []))))
          = [if maxMessages <s 1 then 1 else if 10 <s maxMessages then 10 else maxMessages])
   \<and> (queueURL = [] \<longrightarrow>
        snd (snd (SQSClient_ReceiveMessages (spy_client c) lib now queueURL maxMessages
                    autoDelete (r, []))) = [])
   \<and> fst (SQSClient_ReceiveMessages (spy_client c) lib now queueURL maxMessages autoDelete
             (r, asked))
       = fst (SQSClient_ReceiveMessages c lib now queueURL maxMessages autoDelete r)
   \<and> fst (snd (SQSClient_ReceiveMessages (spy_client c) lib now queueURL maxMessages
                   autoDelete (r, asked)))
       = snd (SQSClient_ReceiveMessages c lib now queueURL maxMessages autoDelete r)
   \<and> 1 \<le>s MaxNumberOfMessages (receive_input queueURL maxMessages autoDelete)
   \<and> MaxNumberOfMessages (receive_input queueURL maxMessages autoDelete) \<le>s 10
   \<and> (maxMessages <s 1 \<longrightarrow>
        MaxNumberOfMessages (receive_input queueURL maxMessages autoDelete) = 1)
   \<and> (10 <s maxMessages \<longrightarrow>
        MaxNumberOfMessages (receive_input queueURL maxMessages autoDelete) = 10)
   \<and> (1 \<le>s maxMessages \<and> maxMessages \<le>s 10 \<longrightarrow>
        MaxNumberOfMessages (receive_input queueURL maxMessages autoDelete) = maxMessages)
   \<and> SQSClient_ReceiveMessages
        (c\<lparr>client_ReceiveMessage := (\<lambda>input.
             if 1 \<le>s MaxNumberOfMessages input \<and> MaxNumberOfMessages input \<le>s 10
             then client_ReceiveMessage c input else other input)\<rparr>)
        lib now queueURL maxMessages autoDelete r
      = SQSClient_ReceiveMessages c lib now queueURL maxMessages autoDelete r"
proof (intro conjI)
  show "queueURL \<noteq> [] \<longrightarrow>
      snd (snd (SQSClient_ReceiveMessages (spy_client c) lib now queueURL maxMessages
                  autoDelete (r, [])))
        = [receive_input queueURL maxMessages autoDelete]
      \<and> map MaxNumberOfMessages
            (snd (snd (SQSClient_ReceiveMessages (spy_client c) lib now queueURL maxMessages
                         autoDelete (r, []))))
          = [if maxMessages <s 1 then 1 else if 10 <s maxMessages then 10 else maxMessages]"
    by (simp add: spy_ReceiveMessages receive_input_max)
  show "queueURL = [] \<longrightarrow>
        snd (snd (SQSClient_ReceiveMessages (spy_client c) lib now queueURL maxMessages
                    autoDelete (r, []))) = []"
    by (simp add: spy_ReceiveMessages)
  show "fst (SQSClient_ReceiveMessages (spy_client c) lib now queueURL maxMessages autoDelete
             (r, asked))
       = fst (SQSClient_ReceiveMessages c lib now queueURL maxMessages autoDelete r)"
    by (simp add: spy_ReceiveMessages)
  show "fst (snd (SQSClient_ReceiveMessages (spy_client c) lib now queueURL maxMessages
                   autoDelete (r, asked)))
       = snd (SQSClient_ReceiveMessages c lib now queueURL maxMessages autoDelete r)"
    by (simp add: spy_ReceiveMessages)
  show "maxMessages <s 1 \<longrightarrow>
        MaxNumberOfMessages (receive_input queueURL maxMessages autoDelete) = 1"
    by (simp add: receive_input_max)
  show "10 <s maxMessages \<longrightarrow>
        MaxNumberOfMessages (receive_input queueURL maxMessages autoDelete) = 10"
    by (auto simp: receive_input_max word_sless_alt)
  show "1 \<le>s maxMessages \<and> maxMessages \<le>s 10 \<longrightarrow>
        MaxNumberOfMessages (receive_input queueURL maxMessages autoDelete) = maxMessages"
    by (auto simp: receive_input_max word_sless_alt word_sle_eq)
qed (rule max_low max_high ReceiveMessages_ignores_other_counts)+

theorem ReceiveMessages_count_in_range_witness:
  "''u'' \<noteq> []
   \<and> map MaxNumberOfMessages
        (snd (snd (SQSClient_ReceiveMessages (spy_client example_sqs) example_lib 0 ''u'' 2000
                     True ([], []))))
       = [10]
   \<and> map MaxNumberOfMessages
        (snd (snd (SQSClient_ReceiveMessages (spy_client example_sqs) example_lib 0 ''u'' (-3)
                     False ([], []))))
       = [1]
   \<and> (-3 :: 32 word) <s 1
   \<and> MaxNumberOfMessages (receive_input ''u'' (-3) True) = 1
   \<and> (10 :: 32 word) <s 2000
   \<and> MaxNumberOfMessages (receive_input ''u'' 2000 True) = 10
   \<and> (1 :: 32 word) \<le>s 7 \<and> (7 :: 32 word) \<le>s 10
   \<and> MaxNumberOfMessages (receive_input ''u'' 7 True) = 7"
proof -
  have h0: "''u'' \<noteq> []" by simp
  have h1: "(-3 :: 32 word) <s 1" by (simp add: word_sless_alt)
  have h2: "(10 :: 32 word) <s 2000" by (simp add: word_sless_alt)
  have n2: "\<not> (2000 :: 32 word) <s 1" by (simp add: word_sless_alt)
  have h3: "(1 :: 32 word) \<le>s 7 \<and> (7 :: 32 word) \<le>s 10" by (simp add: word_sle_eq)
  note t = ReceiveMessages_count_in_range [where queueURL = "''u''"]
  have a1: "map MaxNumberOfMessages
        (snd (snd (SQSClient_ReceiveMessages (spy_client example_sqs) example_lib 0 ''u'' 2000
                     True ([], []))))
       = [10]"
    using t [where c = example_sqs and lib = example_lib and now = 0 and maxMessages = 2000
        and autoDelete = True and r = "[]", THEN conjunct1, THEN mp, OF h0, THEN conjunct2]
      h2 n2
    by simp
  have a2: "map MaxNumberOfMessages
        (snd (snd (SQSClient_ReceiveMessages (spy_client example_sqs) example_lib 0 ''u'' (-3)
                     False ([], []))))
       = [1]"
    using t [where c = example_sqs and lib = example_lib and now = 0 and maxMessages = "-3"
        and autoDelete = False and r = "[]", THEN conjunct1, THEN mp, OF h0, THEN conjunct2]
      h1
    by simp
  have c1: "MaxNumberOfMessages (receive_input ''u'' (-3) True) = 1"
    using t [where autoDelete = True and maxMessages = "-3", THEN conjunct2, THEN conjunct2,
        THEN conjunct2, THEN conjunct2, THEN conjunct2, THEN conjunct2, THEN conjunct1] h1
    by (rule mp)
  have c2: "MaxNumberOfMessages (receive_input ''u'' 2000 True) = 10"
    using t [where autoDelete = True and maxMessages = 2000, THEN conjunct2, THEN conjunct2,
        THEN conjunct2, THEN conjunct2, THEN conjunct2, THEN conjunct2, THEN conjunct2,
        THEN conjunct1] h2
    by (rule mp)
  have c3: "MaxNumberOfMessages (receive_input ''u'' 7 True) = 7"
    using t [where autoDelete = True and maxMessages = 7, THEN conjunct2, THEN conjunct2,
        THEN conjunct2, THEN conjunct2, THEN conjunct2, THEN conjunct2, THEN conjunct2,
        THEN conjunct2, THEN conjunct1] h3
    by (rule mp)
  from h0 a1 a2 h1 h2 h3 c1 c2 c3 show ?thesis by blast
qed

subsection \<open>Queues that do not exist\<close>

lemma getQueueURL_absent:
  assumes "queueName \<noteq> []" and "CHR ''/'' \<notin> set queueName"
    and "fmlookup (cache b) queueName = None \<or> fmlookup (cache b) queueName = Some []"
    and "client_GetQueueUrl c queueName r = (Inl err, r1)"
  shows "getQueueURL c b queueName False r = (Inl err, b, r1)"
  using assms by (auto simp: getQueueURL_def SQSClient_GetQueueURL_def)

text \<open>
  C9, amended. On an initialized backend, for a queue name that is not empty, has no
  slash and no cached URL, and for which the service answers the URL lookup with a
  queue-does-not-exist error, \<open>Dequeue\<close> and \<open>Peek\<close> return the empty message
  with \<open>ok = false\<close> and no error, \<open>Size\<close> returns 0 and no error, \<open>Clear\<close>
  returns no error, and the backend is as before.
\<close>

theorem absent_queue_is_no_error:
  assumes "sqs b = Some c"
    and "queueName \<noteq> []" and "CHR ''/'' \<notin> set queueName"
    and "fmlookup (cache b) queueName = None \<or> fmlookup (cache b) queueName = Some []"
    and "client_GetQueueUrl c queueName r = (Inl err, r1)"
    and "isQueueDoesNotExistError err"
  shows "SQSBackend_Dequeue lib now b queueName r = ((QueueMessage_zero, False, None), b, r1)
    \<and> SQSBackend_Peek lib now b queueName r = ((QueueMessage_zero, False, None), b, r1)
    \<and> SQSBackend_Size lib b queueName r = ((0, None), b, r1)
    \<and> SQSBackend_Clear b queueName r = (None, b, r1)"
proof -
  have g: "getQueueURL c b queueName False r = (Inl err, b, r1)"
    using assms(2-5) by (rule getQueueURL_absent)
  show ?thesis
    using assms(1,6) g
    by (simp add: SQSBackend_Dequeue_def SQSBackend_Peek_def SQSBackend_Size_def
        SQSBackend_Clear_def)
qed

lemma no_such_queue_is: "isQueueDoesNotExistError no_such_queue"
  by (simp add: isQueueDoesNotExistError_def no_such_queue_def)

theorem absent_queue_is_no_error_witness:
  "sqs example_backend = Some example_sqs
   \<and> ''jobs'' \<noteq> [] \<and> CHR ''/'' \<notin> set ''jobs''
   \<and> fmlookup (cache example_backend) ''jobs'' = None
   \<and> client_GetQueueUrl example_sqs ''jobs'' [] = (Inl no_such_queue, [])
   \<and> isQueueDoesNotExistError no_such_queue
   \<and> SQSBackend_Dequeue example_lib 0 example_backend ''jobs'' []
       = ((QueueMessage_zero, False, None), example_backend, [])
   \<and> SQSBackend_Size example_lib example_backend ''jobs'' [] = ((0, None), example_backend, [])"
proof -
  have h1: "sqs example_backend = Some example_sqs"
    by (simp add: example_backend_def)
  have h2: "''jobs'' \<noteq> []" and h3: "CHR ''/'' \<notin> set ''jobs''"
    by simp_all
  have h4: "fmlookup (cache example_backend) ''jobs'' = None"
    by (simp add: example_backend_def)
  have h5: "client_GetQueueUrl example_sqs ''jobs'' [] = (Inl no_such_queue, [])"
    by (simp add: example_sqs_def)
  note t = absent_queue_is_no_error [OF h1 h2 h3 disjI1 [OF h4] h5 no_such_queue_is,
      of example_lib 0]
  from t h1 h2 h3 h4 h5 no_such_queue_is show ?thesis
    by blast
qed

text \<open>
  C9, as stated, fails. No queue exists in the service. The name \<open>a/b\<close> is
  refused by \<open>Dequeue\<close> with an error; and with a cached URL left over for the
  absent queue \<open>jobs\<close>, \<open>Dequeue\<close>, \<open>Size\<close> and \<open>Clear\<close> hand on the
  queue-does-not-exist error of the service.
\<close>

theorem absent_queue_counterexample:
  "fst (client_GetQueueUrl example_sqs ''a/b'' []) = Inl no_such_queue
   \<and> isQueueDoesNotExistError no_such_queue
   \<and> fst (SQSBackend_Dequeue example_lib 0 example_backend ''a/b'' [])
       = (QueueMessage_zero, False,
          Some (Wrap ''dequeue get queue url failed: %w'' []
                 (Errorf ''nested queue name %q is not supported by sqs backend'' [''a/b''])))
   \<and> fst (client_GetQueueUrl example_sqs ''jobs'' []) = Inl no_such_queue
   \<and> fst (SQSBackend_Dequeue example_lib 0
             (example_backend\<lparr>cache := fmupd ''jobs'' (queue_url ''jobs'') fmempty\<rparr>) ''jobs'' [])
       = (QueueMessage_zero, False, Some (Wrap ''receive message failed: %w'' [] no_such_queue))
   \<and> fst (SQSBackend_Size example_lib
             (example_backend\<lparr>cache := fmupd ''jobs'' (queue_url ''jobs'') fmempty\<rparr>) ''jobs'' [])
       = (0, Some no_such_queue)
   \<and> fst (SQSBackend_Clear
             (example_backend\<lparr>cache := fmupd ''jobs'' (queue_url ''jobs'') fmempty\<rparr>) ''jobs'' [])
       = Some no_such_queue"
proof (intro conjI)
  show "fst (client_GetQueueUrl example_sqs ''a/b'' []) = Inl no_such_queue"
    and "fst (client_GetQueueUrl example_sqs ''jobs'' []) = Inl no_such_queue"
    by (simp_all add: example_sqs_def)
  show "isQueueDoesNotExistError no_such_queue"
    by (rule no_such_queue_is)
  show "fst (SQSBackend_Dequeue example_lib 0 example_backend ''a/b'' [])
       = (QueueMessage_zero, False,
          Some (Wrap ''dequeue get queue url failed: %w'' []
                 (Errorf ''nested queue name %q is not supported by sqs backend'' [''a/b''])))"
    by (simp add: SQSBackend_Dequeue_def example_backend_def getQueueURL_def
        isQueueDoesNotExistError_def)
  have name: "queueNameFromURL (queue_url ''jobs'') = ''jobs''"
    by (simp add: queueNameFromURL_def queue_url_def TrimSpace_def TrimLeft_space.simps
        TrimRight_space.simps leading_space_def trailing_space_def asciiSpace_def
        unicode_spaces_def)
  have url: "queue_url ''jobs'' \<noteq> []"
    by (simp add: queue_url_def)
  show "fst (SQSBackend_Dequeue example_lib 0
             (example_backend\<lparr>cache := fmupd ''jobs'' (queue_url ''jobs'') fmempty\<rparr>) ''jobs'' [])
       = (QueueMessage_zero, False, Some (Wrap ''receive message failed: %w'' [] no_such_queue))"
    by (simp add: SQSBackend_Dequeue_def example_backend_def getQueueURL_def url name
        SQSClient_ReceiveMessages_def example_sqs_def receive_input_def)
  show "fst (SQSBackend_Size example_lib
             (example_backend\<lparr>cache := fmupd ''jobs'' (queue_url ''jobs'') fmempty\<rparr>) ''jobs'' [])
       = (0, Some no_such_queue)"
    by (simp add: SQSBackend_Size_def example_backend_def getQueueURL_def url name
        SQSClient_ApproximateNumberOfMessages_def example_sqs_def)
  show "fst (SQSBackend_Clear
             (example_backend\<lparr>cache := fmupd ''jobs'' (queue_url ''jobs'') fmempty\<rparr>) ''jobs'' [])
       = Some no_such_queue"
    by (simp add: SQSBackend_Clear_def example_backend_def getQueueURL_def url name
        SQSClient_PurgeQueue_def example_sqs_def)
qed

subsection \<open>The recently-deleted set\<close>

lemma TTL_value: "Add t0 sqsDeletedQueueTTL = t0 + 120000000000"
  by (simp add: Add_def sqsDeletedQueueTTL_def Minute_def)

lemma purge_lookup:
  "fmlookup (purge_expired now del) q =
     (case fmlookup del q of
        Some expireAt \<Rightarrow> if After now expireAt then None else Some expireAt
      | None \<Rightarrow> None)"
  by (simp add: purge_expired_def split: option.splits)

lemma listed_step_keeps_out:
  "fmlookup del q \<noteq> None \<Longrightarrow> q \<notin> set (fst acc) \<Longrightarrow> q \<notin> set (fst (listed_step del x acc))"
  by (cases acc) (auto simp: listed_step_def)

lemma cached_step_keeps_out:
  "fmlookup del q \<noteq> None \<Longrightarrow> q \<notin> set (fst acc)
    \<Longrightarrow> q \<notin> set (fst (cached_step del pre x acc))"
  by (cases acc) (auto simp: cached_step_def)

lemma listed_fold_keeps_out:
  "fmlookup del q \<noteq> None \<Longrightarrow> q \<notin> set (fst acc)
    \<Longrightarrow> q \<notin> set (fst (fold (listed_step del) qs acc))"
proof (induction qs arbitrary: acc)
  case Nil
  then show ?case by simp
next
  case (Cons x xs)
  have "q \<notin> set (fst (listed_step del x acc))"
    using Cons.prems by (rule listed_step_keeps_out)
  with Cons.IH [OF Cons.prems(1)] show ?case by simp
qed

lemma cached_fold_keeps_out:
  "fmlookup del q \<noteq> None \<Longrightarrow> q \<notin> set (fst acc)
    \<Longrightarrow> q \<notin> set (fst (fold (cached_step del pre) qs acc))"
proof (induction qs arbitrary: acc)
  case Nil
  then show ?case by simp
next
  case (Cons x xs)
  have "q \<notin> set (fst (cached_step del pre x acc))"
    using Cons.prems by (rule cached_step_keeps_out)
  with Cons.IH [OF Cons.prems(1)] show ?case by simp
qed

lemma listed_step_mono:
  "q \<in> set (fst acc) \<Longrightarrow> q \<in> set (fst (listed_step del x acc))"
  by (cases acc) (auto simp: listed_step_def)

lemma cached_step_mono:
  "q \<in> set (fst acc) \<Longrightarrow> q \<in> set (fst (cached_step del pre x acc))"
  by (cases acc) (auto simp: cached_step_def)

lemma listed_fold_mono:
  "q \<in> set (fst acc) \<Longrightarrow> q \<in> set (fst (fold (listed_step del) qs acc))"
  by (induction qs arbitrary: acc) (simp_all add: listed_step_mono)

lemma cached_fold_mono:
  "q \<in> set (fst acc) \<Longrightarrow> q \<in> set (fst (fold (cached_step del pre) qs acc))"
  by (induction qs arbitrary: acc) (simp_all add: cached_step_mono)

lemma listed_fold_takes:
  "fmlookup del q = None \<Longrightarrow> q \<in> set qs
    \<Longrightarrow> q \<in> set (fst (fold (listed_step del) qs acc))"
proof (induction qs arbitrary: acc)
  case Nil
  then show ?case by simp
next
  case (Cons x xs)
  show ?case
  proof (cases "x = q")
    case True
    have "q \<in> set (fst (listed_step del q acc))"
      using Cons.prems(1) by (simp add: listed_step_def split: prod.splits)
    then show ?thesis
      using True by (simp add: listed_fold_mono)
  next
    case False
    then have "q \<in> set xs" using Cons.prems(2) by simp
    then show ?thesis
      using Cons.IH [OF Cons.prems(1)] by simp
  qed
qed

lemma ListQueues_names:
  assumes "SQSBackend_ListQueues t b pre r = Some (Inr names, b', r')"
  obtains c queues where "sqs b = Some c"
    and "SQSClient_ListQueues c pre r = Some (Inr queues, r')"
    and "b' = b\<lparr>deleted := purge_expired t (deleted b)\<rparr>"
    and "names = sort (fst (fold (cached_step (purge_expired t (deleted b)) pre)
            (sorted_list_of_fset (fmdom (cache b)))
            (fold (listed_step (purge_expired t (deleted b))) queues ([], {}))))"
  using assms
  by (auto simp: SQSBackend_ListQueues_def Let_def split: option.splits sum.splits prod.splits)

lemma ListQueues_hides:
  assumes "fmlookup (deleted b) q = Some expireAt" and "t \<le> expireAt"
    and "SQSBackend_ListQueues t b pre r = Some (Inr names, b', r')"
  shows "q \<notin> set names \<and> fmlookup (deleted b') q = Some expireAt"
proof -
  from assms(3) obtain c queues where
    b': "b' = b\<lparr>deleted := purge_expired t (deleted b)\<rparr>"
    and names: "names = sort (fst (fold (cached_step (purge_expired t (deleted b)) pre)
            (sorted_list_of_fset (fmdom (cache b)))
            (fold (listed_step (purge_expired t (deleted b))) queues ([], {}))))"
    by (rule ListQueues_names)
  have kept: "fmlookup (purge_expired t (deleted b)) q = Some expireAt"
    using assms(1,2) by (simp add: purge_lookup After_def)
  then have "q \<notin> set (fst (fold (listed_step (purge_expired t (deleted b))) queues ([], {})))"
    by (intro listed_fold_keeps_out) simp_all
  with kept have "q \<notin> set names"
    unfolding names by (simp add: cached_fold_keeps_out)
  with kept b' show ?thesis by simp
qed

lemma ListQueues_purges:
  assumes "fmlookup (deleted b) q = Some expireAt" and "expireAt < t"
    and "SQSBackend_ListQueues t b pre r = Some (Inr names, b', r')"
  shows "fmlookup (deleted b') q = None"
    and "sqs b = Some c \<Longrightarrow> SQSClient_ListQueues c pre r = Some (Inr queues, r'')
          \<Longrightarrow> q \<in> set queues \<Longrightarrow> q \<in> set names"
proof -
  from assms(3) obtain c' queues' where
    c': "sqs b = Some c'" and l: "SQSClient_ListQueues c' pre r = Some (Inr queues', r')"
    and b': "b' = b\<lparr>deleted := purge_expired t (deleted b)\<rparr>"
    and names: "names = sort (fst (fold (cached_step (purge_expired t (deleted b)) pre)
            (sorted_list_of_fset (fmdom (cache b)))
            (fold (listed_step (purge_expired t (deleted b))) queues' ([], {}))))"
    by (rule ListQueues_names)
  have gone: "fmlookup (purge_expired t (deleted b)) q = None"
    using assms(1,2) by (simp add: purge_lookup After_def)
  with b' show "fmlookup (deleted b') q = None" by simp
  assume "sqs b = Some c" and "SQSClient_ListQueues c pre r = Some (Inr queues, r'')"
    and q: "q \<in> set queues"
  with c' l have "queues' = queues" by simp
  with gone q have "q \<in> set (fst (fold (listed_step (purge_expired t (deleted b))) queues' ([], {})))"
    by (simp add: listed_fold_takes)
  then show "q \<in> set names"
    unfolding names by (simp add: cached_fold_mono)
qed

lemma removeOneQueue_records:
  assumes "fst (getQueueURL c b q False r) = Inr u"
    and "removeOneQueue t0 c b q r = (None, b1, r1)"
  shows "fmlookup (cache b1) q = None \<and> fmlookup (deleted b1) q = Some (t0 + 120000000000)"
proof -
  obtain b0 r0 where g: "getQueueURL c b q False r = (Inr u, b0, r0)"
    using assms(1) by (cases "getQueueURL c b q False r") auto
  show ?thesis
    using assms(2) g
    by (auto simp: removeOneQueue_def TTL_value split: prod.splits option.splits if_splits)
qed

lemma RemoveQueue_one:
  assumes "sqs b = Some c" and "fst (getQueueURL c b q False r) = Inr u"
  shows "SQSBackend_RemoveQueue t0 b q r = Some (removeOneQueue t0 c b q r)"
proof -
  have "q \<noteq> []" and "CHR ''/'' \<notin> set q"
    using assms(2) by (auto simp: getQueueURL_def split: if_splits)
  then show ?thesis
    using assms(1) by (simp add: SQSBackend_RemoveQueue_def)
qed

lemma ListQueues_returns:
  "sqs b = Some c \<Longrightarrow> SQSClient_ListQueues c pre r \<noteq> None
    \<Longrightarrow> SQSBackend_ListQueues t b pre r \<noteq> None"
  by (auto simp: SQSBackend_ListQueues_def Let_def split: option.splits sum.splits prod.splits)

text \<open>
  C8, amended. \<open>RemoveQueue q\<close> returning without error for a queue whose URL
  resolves leaves \<open>q\<close> out of the URL cache and records it in \<open>deleted\<close> with the
  expiry two minutes after the clock reading. In every state in which that entry is
  still recorded, a \<open>ListQueues\<close> at or before the expiry leaves \<open>q\<close> out of its
  result and keeps the entry; a \<open>ListQueues\<close> after the expiry purges the entry, and
  \<open>q\<close> is in its result when the service lists it. \<open>ListQueues\<close> returns whenever
  the paging of the client does. (A successful URL resolution of \<open>q\<close>, such as its
  creation, removes the entry before its expiry: see the counterexample.)
\<close>

theorem deleted_queue_hidden_until_expiry:
  assumes "sqs b = Some c"
    and "fst (getQueueURL c b q False r) = Inr u"
    and "SQSBackend_RemoveQueue t0 b q r = Some (None, b1, r1)"
  shows "sqsDeletedQueueTTL = 2 * (60 * 1000000000)
    \<and> fmlookup (cache b1) q = None
    \<and> fmlookup (deleted b1) q = Some (t0 + sqsDeletedQueueTTL)
    \<and> (\<forall>b2 t pre r2 names b3 r3.
          fmlookup (deleted b2) q = Some (t0 + sqsDeletedQueueTTL)
          \<and> t \<le> t0 + sqsDeletedQueueTTL
          \<and> SQSBackend_ListQueues t b2 pre r2 = Some (Inr names, b3, r3)
          \<longrightarrow> q \<notin> set names \<and> fmlookup (deleted b3) q = Some (t0 + sqsDeletedQueueTTL))
    \<and> (\<forall>b2 t pre r2 names b3 r3.
          fmlookup (deleted b2) q = Some (t0 + sqsDeletedQueueTTL)
          \<and> t0 + sqsDeletedQueueTTL < t
          \<and> SQSBackend_ListQueues t b2 pre r2 = Some (Inr names, b3, r3)
          \<longrightarrow> fmlookup (deleted b3) q = None
              \<and> (\<forall>c2 queues r4.
                    sqs b2 = Some c2
                    \<and> SQSClient_ListQueues c2 pre r2 = Some (Inr queues, r4)
                    \<and> q \<in> set queues
                    \<longrightarrow> q \<in> set names))
    \<and> (\<forall>b2 c2 t pre r2.
          sqs b2 = Some c2 \<and> SQSClient_ListQueues c2 pre r2 \<noteq> None
          \<longrightarrow> SQSBackend_ListQueues t b2 pre r2 \<noteq> None)"
proof -
  have ttl: "sqsDeletedQueueTTL = 2 * (60 * 1000000000)"
    by (simp add: sqsDeletedQueueTTL_def Minute_def)
  have "removeOneQueue t0 c b q r = (None, b1, r1)"
    using assms(3) RemoveQueue_one [OF assms(1,2), of t0] by simp
  with assms(2) have rec:
    "fmlookup (cache b1) q = None \<and> fmlookup (deleted b1) q = Some (t0 + 120000000000)"
    by (rule removeOneQueue_records)
  have hides: "\<forall>b2 t pre r2 names b3 r3.
          fmlookup (deleted b2) q = Some (t0 + sqsDeletedQueueTTL)
          \<and> t \<le> t0 + sqsDeletedQueueTTL
          \<and> SQSBackend_ListQueues t b2 pre r2 = Some (Inr names, b3, r3)
          \<longrightarrow> q \<notin> set names \<and> fmlookup (deleted b3) q = Some (t0 + sqsDeletedQueueTTL)"
  proof (intro allI impI)
    fix b2 t pre r2 names b3 r3
    assume h: "fmlookup (deleted b2) q = Some (t0 + sqsDeletedQueueTTL)
          \<and> t \<le> t0 + sqsDeletedQueueTTL
          \<and> SQSBackend_ListQueues t b2 pre r2 = Some (Inr names, b3, r3)"
    show "q \<notin> set names \<and> fmlookup (deleted b3) q = Some (t0 + sqsDeletedQueueTTL)"
      by (rule ListQueues_hides [of b2 q _ t pre r2 names b3 r3]) (simp_all add: h)
  qed
  have purges: "\<forall>b2 t pre r2 names b3 r3.
          fmlookup (deleted b2) q = Some (t0 + sqsDeletedQueueTTL)
          \<and> t0 + sqsDeletedQueueTTL < t
          \<and> SQSBackend_ListQueues t b2 pre r2 = Some (Inr names, b3, r3)
          \<longrightarrow> fmlookup (deleted b3) q = None
              \<and> (\<forall>c2 queues r4.
                    sqs b2 = Some c2
                    \<and> SQSClient_ListQueues c2 pre r2 = Some (Inr queues, r4)
                    \<and> q \<in> set queues
                    \<longrightarrow> q \<in> set names)"
  proof (intro allI impI conjI)
    fix b2 t pre r2 names b3 r3
    assume h: "fmlookup (deleted b2) q = Some (t0 + sqsDeletedQueueTTL)
          \<and> t0 + sqsDeletedQueueTTL < t
          \<and> SQSBackend_ListQueues t b2 pre r2 = Some (Inr names, b3, r3)"
    note p = ListQueues_purges [of b2 q "t0 + sqsDeletedQueueTTL" t pre r2 names b3 r3]
    show "fmlookup (deleted b3) q = None"
      by (rule p(1)) (simp_all add: h)
    fix c2 queues r4
    assume l: "sqs b2 = Some c2
          \<and> SQSClient_ListQueues c2 pre r2 = Some (Inr queues, r4) \<and> q \<in> set queues"
    show "q \<in> set names"
      by (rule p(2) [of c2 queues r4]) (simp_all add: h l)
  qed
  have returns: "\<forall>b2 c2 t pre r2.
          sqs b2 = Some c2 \<and> SQSClient_ListQueues c2 pre r2 \<noteq> None
          \<longrightarrow> SQSBackend_ListQueues t b2 pre r2 \<noteq> None"
    by (intro allI impI, elim conjE, rule ListQueues_returns)
  show ?thesis
    using ttl rec hides purges returns by (simp only: TTL_value [unfolded Add_def, symmetric] simp_thms)
qed

text \<open>The example service: one queue \<open>q\<close>, removed at time 0.\<close>

lemma example_backend_fields:
  "sqs example_backend = Some example_sqs"
  "cache example_backend = fmempty"
  "deleted example_backend = fmempty"
  by (simp_all add: example_backend_def)

lemma example_sqs_ops:
  "client_GetQueueUrl example_sqs name r =
     (if name \<in> set r then (Inr (Some (queue_url name)), r) else (Inl no_such_queue, r))"
  "client_DeleteQueue example_sqs u r =
     (if queueNameFromURL u \<in> set r then (None, removeAll (queueNameFromURL u) r)
      else (Some no_such_queue, r))"
  "client_CreateQueue example_sqs name r = (None, if name \<in> set r then r else r @ [name])"
  "client_ListQueues example_sqs pre token r =
     (Inr (map queue_url (filter (\<lambda>name. HasPrefix name pre) r), None), r)"
  by (simp_all add: example_sqs_def)

lemma name_q: "queueNameFromURL (queue_url ''q'') = ''q''"
  by (simp add: queueNameFromURL_def queue_url_def TrimSpace_def TrimLeft_space.simps
        TrimRight_space.simps leading_space_def trailing_space_def asciiSpace_def
        unicode_spaces_def)

lemma url_q: "queue_url ''q'' \<noteq> []"
  by (simp add: queue_url_def)

lemma get_q: "getQueueURL example_sqs example_backend ''q'' False [''q'']
  = (Inr (queue_url ''q''), example_backend\<lparr>cache := fmupd ''q'' (queue_url ''q'') fmempty\<rparr>, [''q''])"
  by (simp add: getQueueURL_def example_backend_fields SQSClient_GetQueueURL_def example_sqs_ops url_q)

lemma drop_upd_empty: "fmdrop k (fmupd k v fmempty) = fmempty"
  by (rule fmap_ext) simp

lemma remove_q:
  "SQSBackend_RemoveQueue 0 example_backend ''q'' [''q'']
     = Some (None, example_backend\<lparr>deleted := fmupd ''q'' 120000000000 fmempty\<rparr>, [])"
proof -
  have "example_backend\<lparr>cache := fmempty, deleted := fmupd ''q'' 120000000000 fmempty\<rparr>
      = example_backend\<lparr>deleted := fmupd ''q'' 120000000000 fmempty\<rparr>"
    by (simp add: example_backend_def)
  then show ?thesis
    by (simp add: SQSBackend_RemoveQueue_def removeOneQueue_def get_q TTL_value
        SQSClient_DeleteQueue_def url_q name_q example_backend_fields example_sqs_ops
        drop_upd_empty)
qed

lemma pages_q: "SQSClient_ListQueues example_sqs [] [''q''] = Some (Inr [''q''], [''q''])"
  by (simp add: SQSClient_ListQueues_def ListQueues_pages.simps example_sqs_ops HasPrefix_def name_q)

lemma list_hidden:
  "map_option fst (SQSBackend_ListQueues 1000
      (example_backend\<lparr>deleted := fmupd ''q'' 120000000000 fmempty\<rparr>) [] [''q''])
   = Some (Inr [])"
  by (simp add: SQSBackend_ListQueues_def pages_q example_backend_fields Let_def
     listed_step_def purge_lookup After_def sorted_list_of_fset.rep_eq)

lemma list_again:
  "map_option fst (SQSBackend_ListQueues 120000000001
      (example_backend\<lparr>deleted := fmupd ''q'' 120000000000 fmempty\<rparr>) [] [''q''])
   = Some (Inr [''q''])"
  by (simp add: SQSBackend_ListQueues_def pages_q example_backend_fields Let_def
     listed_step_def purge_lookup After_def sorted_list_of_fset.rep_eq)

lemma create_q:
  "SQSBackend_CreateQueue (example_backend\<lparr>deleted := fmupd ''q'' 120000000000 fmempty\<rparr>) ''q'' []
   = (None, example_backend\<lparr>cache := fmupd ''q'' (queue_url ''q'') fmempty\<rparr>, [''q''])"
proof -
  have "example_backend\<lparr>cache := fmupd ''q'' (queue_url ''q'') fmempty, deleted := fmempty\<rparr>
      = example_backend\<lparr>cache := fmupd ''q'' (queue_url ''q'') fmempty\<rparr>"
    by (simp add: example_backend_def)
  then show ?thesis
    by (simp add: SQSBackend_CreateQueue_def example_backend_fields getQueueURL_def
     SQSClient_EnsureQueueURL_def SQSClient_GetQueueURL_def SQSClient_CreateQueue_def
     example_sqs_ops no_such_queue_def isQueueDoesNotExistError_def url_q drop_upd_empty)
qed

lemma list_after_create:
  "map_option fst (SQSBackend_ListQueues 1000
      (example_backend\<lparr>cache := fmupd ''q'' (queue_url ''q'') fmempty\<rparr>) [] [''q''])
   = Some (Inr [''q''])"
  by (simp add: SQSBackend_ListQueues_def pages_q example_backend_fields Let_def
     listed_step_def cached_step_def purge_lookup After_def sorted_list_of_fset.rep_eq)

theorem deleted_queue_hidden_until_expiry_witness:
  "sqs example_backend = Some example_sqs
   \<and> fst (getQueueURL example_sqs example_backend ''q'' False [''q'']) = Inr (queue_url ''q'')
   \<and> SQSBackend_RemoveQueue 0 example_backend ''q'' [''q'']
       = Some (None, example_backend\<lparr>deleted := fmupd ''q'' 120000000000 fmempty\<rparr>, [])
   \<and> fmlookup (cache (example_backend\<lparr>deleted := fmupd ''q'' 120000000000 fmempty\<rparr>)) ''q''
       = None
   \<and> fmlookup (deleted (example_backend\<lparr>deleted := fmupd ''q'' 120000000000 fmempty\<rparr>)) ''q''
       = Some (0 + sqsDeletedQueueTTL)
   \<and> (1000 :: int) \<le> 0 + sqsDeletedQueueTTL
   \<and> map_option fst (SQSBackend_ListQueues 1000
         (example_backend\<lparr>deleted := fmupd ''q'' 120000000000 fmempty\<rparr>) [] [''q''])
       = Some (Inr [])
   \<and> 0 + sqsDeletedQueueTTL < (120000000001 :: int)
   \<and> map_option fst (SQSBackend_ListQueues 120000000001
         (example_backend\<lparr>deleted := fmupd ''q'' 120000000000 fmempty\<rparr>) [] [''q''])
       = Some (Inr [''q''])"
proof -
  have h1: "sqs example_backend = Some example_sqs"
    by (rule example_backend_fields)
  have h2: "fst (getQueueURL example_sqs example_backend ''q'' False [''q'']) = Inr (queue_url ''q'')"
    by (simp add: get_q)
  note t = deleted_queue_hidden_until_expiry [OF h1 h2 remove_q]
  have ttl: "sqsDeletedQueueTTL = 120000000000"
    using t [THEN conjunct1] by simp
  show ?thesis
    using h1 h2 remove_q t [THEN conjunct2, THEN conjunct1]
      t [THEN conjunct2, THEN conjunct2, THEN conjunct1] list_hidden list_again
    by (simp add: ttl)
qed

text \<open>
  C8, as stated, fails: the queue \<open>q\<close> is removed at time 0 and created again; a
  \<open>ListQueues\<close> at time 1000, long before the expiry, has \<open>q\<close> in its result.
\<close>

theorem deleted_queue_listed_counterexample:
  "SQSBackend_RemoveQueue 0 example_backend ''q'' [''q'']
     = Some (None, example_backend\<lparr>deleted := fmupd ''q'' 120000000000 fmempty\<rparr>, [])
   \<and> SQSBackend_CreateQueue (example_backend\<lparr>deleted := fmupd ''q'' 120000000000 fmempty\<rparr>)
         ''q'' []
       = (None, example_backend\<lparr>cache := fmupd ''q'' (queue_url ''q'') fmempty\<rparr>, [''q''])
   \<and> (1000 :: int) < Add 0 sqsDeletedQueueTTL
   \<and> map_option fst (SQSBackend_ListQueues 1000
         (example_backend\<lparr>cache := fmupd ''q'' (queue_url ''q'') fmempty\<rparr>) [] [''q''])
       = Some (Inr [''q''])"
  using remove_q create_q list_after_create by (simp add: TTL_value)

section \<open>Properties of the mount router and the capability gate\<close>

subsection \<open>Resolve\<close>

lemma longest_prefix_None: "longest_prefix es = None \<longleftrightarrow> es = []"
  by (cases es) (auto split: option.splits)

lemma longest_prefix_Some:
  "longest_prefix es = Some e
    \<Longrightarrow> e \<in> set es \<and> (\<forall>e' \<in> set es. length (prefix e') \<le> length (prefix e))"
proof (induction es arbitrary: e)
  case Nil
  then show ?case by simp
next
  case (Cons x xs)
  show ?case
  proof (cases "longest_prefix xs")
    case None
    then have "xs = []" by (simp add: longest_prefix_None)
    with Cons.prems show ?thesis by simp
  next
    case (Some e')
    from Cons.IH [OF Some] have ih: "e' \<in> set xs"
      "\<forall>y \<in> set xs. length (prefix y) \<le> length (prefix e')"
      by simp_all
    show ?thesis
    proof (cases "length (prefix x) < length (prefix e')")
      case True
      with Cons.prems Some have "e = e'" by simp
      with ih True show ?thesis by auto
    next
      case False
      with Cons.prems Some have "e = x" by simp
      with ih False show ?thesis by fastforce
    qed
  qed
qed

lemma segment_prefix_append:
  "segment_prefix pre path \<Longrightarrow> path = pre @ drop (length pre) path"
  unfolding segment_prefix_def by (metis append_take_drop_id)

lemma Resolve_NotFound:
  "Resolve table path = Inl err
    \<longleftrightarrow> err = NotFound \<and> (\<forall>e \<in> set table. \<not> segment_prefix (prefix e) path)"
  by (auto simp: Resolve_def longest_prefix_None filter_empty_conv split: option.splits
      dest!: longest_prefix_Some)

lemma segment_prefix_same_length:
  "segment_prefix pre path \<Longrightarrow> segment_prefix pre' path \<Longrightarrow> length pre' = length pre
    \<Longrightarrow> pre' = pre"
  by (metis segment_prefix_def)

lemma Resolve_found:
  assumes "Resolve table path = Inr (p, rel)"
  shows "\<exists>e \<in> set table. provider e = p \<and> segment_prefix (prefix e) path
           \<and> path = prefix e @ rel
           \<and> (\<forall>e' \<in> set table. segment_prefix (prefix e') path
                 \<longrightarrow> length (prefix e') \<le> length (prefix e)
                     \<and> (length (prefix e') = length (prefix e) \<longrightarrow> prefix e' = prefix e))"
proof -
  let ?ms = "filter (\<lambda>e. segment_prefix (prefix e) path) table"
  from assms obtain e where e: "longest_prefix ?ms = Some e"
    and p: "p = provider e" and rel: "rel = drop (length (prefix e)) path"
    by (auto simp: Resolve_def split: option.splits)
  from longest_prefix_Some [OF e] have m: "e \<in> set ?ms"
    and l: "\<forall>e' \<in> set ?ms. length (prefix e') \<le> length (prefix e)"
    by simp_all
  from m have sp: "segment_prefix (prefix e) path" by simp
  have "\<forall>e' \<in> set table. segment_prefix (prefix e') path
      \<longrightarrow> length (prefix e') \<le> length (prefix e)
          \<and> (length (prefix e') = length (prefix e) \<longrightarrow> prefix e' = prefix e)"
    using l sp segment_prefix_same_length by auto
  with m sp p rel segment_prefix_append [of "prefix e" path] show ?thesis
    by (intro bexI [of _ e]) auto
qed

lemma Resolve_matches:
  assumes "e \<in> set table" and "segment_prefix (prefix e) path"
  shows "\<exists>p rel. Resolve table path = Inr (p, rel)"
proof (cases "Resolve table path")
  case (Inl err)
  with assms show ?thesis by (auto simp: Resolve_NotFound)
next
  case (Inr x)
  then show ?thesis by (cases x) simp
qed

lemma nested_mounts:
  "Resolve [\<lparr>prefix = ''/a'', provider = pa, config = ca, mountedAt = ta\<rparr>,
            \<lparr>prefix = ''/a/b'', provider = pb, config = cb, mountedAt = tb\<rparr>] ''/a/b/c''
     = Inr (pb, ''/c'')"
  "Resolve [\<lparr>prefix = ''/a'', provider = pa, config = ca, mountedAt = ta\<rparr>,
            \<lparr>prefix = ''/a/b'', provider = pb, config = cb, mountedAt = tb\<rparr>] ''/a/x''
     = Inr (pa, ''/x'')"
  "Resolve [\<lparr>prefix = ''/a'', provider = pa, config = ca, mountedAt = ta\<rparr>,
            \<lparr>prefix = ''/a/b'', provider = pb, config = cb, mountedAt = tb\<rparr>] ''/ab''
     = Inl NotFound"
  by (simp_all add: Resolve_def segment_prefix_def)

text \<open>
  C2. When \<open>Resolve\<close> returns a provider and a relative path, the provider is that of
  a mount whose prefix matches the path on whole segments, the path is that prefix
  followed by the relative path, and no mount that matches has a longer prefix (one
  of the same length has the same prefix); it
  returns such a pair whenever some mount matches, and \<open>NotFound\<close> when none does.
  The mount \<open>/a\<close> does not match the path \<open>/ab\<close>. With mounts at \<open>/a\<close> and
  \<open>/a/b\<close>, the path \<open>/a/b/c\<close> resolves to the provider of \<open>/a/b\<close> with \<open>/c\<close>,
  and \<open>/a/x\<close> to the provider of \<open>/a\<close> with \<open>/x\<close>; \<open>/ab\<close> is not found.
\<close>

theorem Resolve_longest_segment_prefix:
  "(\<forall>p rel. Resolve table path = Inr (p, rel) \<longrightarrow>
      (\<exists>e \<in> set table. provider e = p \<and> segment_prefix (prefix e) path
         \<and> path = prefix e @ rel
         \<and> (\<forall>e' \<in> set table. segment_prefix (prefix e') path
               \<longrightarrow> length (prefix e') \<le> length (prefix e)
                   \<and> (length (prefix e') = length (prefix e) \<longrightarrow> prefix e' = prefix e))))
   \<and> ((\<exists>e \<in> set table. segment_prefix (prefix e) path)
        \<longrightarrow> (\<exists>p rel. Resolve table path = Inr (p, rel)))
   \<and> ((\<forall>e \<in> set table. \<not> segment_prefix (prefix e) path)
        \<longrightarrow> Resolve table path = Inl NotFound)
   \<and> \<not> segment_prefix ''/a'' ''/ab''
   \<and> Resolve [\<lparr>prefix = ''/a'', provider = pa, config = ca, mountedAt = ta\<rparr>,
               \<lparr>prefix = ''/a/b'', provider = pb, config = cb, mountedAt = tb\<rparr>] ''/a/b/c''
       = Inr (pb, ''/c'')
   \<and> Resolve [\<lparr>prefix = ''/a'', provider = pa, config = ca, mountedAt = ta\<rparr>,
               \<lparr>prefix = ''/a/b'', provider = pb, config = cb, mountedAt = tb\<rparr>] ''/a/x''
       = Inr (pa, ''/x'')
   \<and> Resolve [\<lparr>prefix = ''/a'', provider = pa, config = ca, mountedAt = ta\<rparr>,
               \<lparr>prefix = ''/a/b'', provider = pb, config = cb, mountedAt = tb\<rparr>] ''/ab''
       = Inl NotFound"
proof (intro conjI allI impI)
  fix p rel
  assume "Resolve table path = Inr (p, rel)"
  then show "\<exists>e \<in> set table. provider e = p \<and> segment_prefix (prefix e) path
         \<and> path = prefix e @ rel
         \<and> (\<forall>e' \<in> set table. segment_prefix (prefix e') path
               \<longrightarrow> length (prefix e') \<le> length (prefix e)
                   \<and> (length (prefix e') = length (prefix e) \<longrightarrow> prefix e' = prefix e))"
    by (rule Resolve_found)
next
  assume "\<exists>e \<in> set table. segment_prefix (prefix e) path"
  then show "\<exists>p rel. Resolve table path = Inr (p, rel)"
    using Resolve_matches by blast
next
  assume "\<forall>e \<in> set table. \<not> segment_prefix (prefix e) path"
  then show "Resolve table path = Inl NotFound"
    by (simp add: Resolve_NotFound)
next
  show "\<not> segment_prefix ''/a'' ''/ab''"
    by (simp add: segment_prefix_def)
qed (rule nested_mounts)+

theorem Resolve_longest_segment_prefix_witness:
  "Resolve [\<lparr>prefix = ''/a'', provider = 1 :: nat, config = (), mountedAt = 0\<rparr>,
            \<lparr>prefix = ''/a/b'', provider = 2, config = (), mountedAt = 1\<rparr>] ''/a/b/c''
     = Inr (2, ''/c'')
   \<and> segment_prefix ''/a'' ''/a/b/c'' \<and> segment_prefix ''/a/b'' ''/a/b/c''
   \<and> \<not> segment_prefix ''/a'' ''/ab'' \<and> \<not> segment_prefix ''/a/b'' ''/ab''
   \<and> Resolve [\<lparr>prefix = ''/a'', provider = 1 :: nat, config = (), mountedAt = 0\<rparr>,
               \<lparr>prefix = ''/a/b'', provider = 2, config = (), mountedAt = 1\<rparr>] ''/ab''
       = Inl NotFound"
proof -
  let ?T = "[\<lparr>prefix = ''/a'', provider = 1 :: nat, config = (), mountedAt = 0 :: nat\<rparr>,
             \<lparr>prefix = ''/a/b'', provider = 2, config = (), mountedAt = 1\<rparr>]"
  have m: "segment_prefix ''/a'' ''/a/b/c''" "segment_prefix ''/a/b'' ''/a/b/c''"
    and n: "\<not> segment_prefix ''/a'' ''/ab''" "\<not> segment_prefix ''/a/b'' ''/ab''"
    by (simp_all add: segment_prefix_def)
  note t = Resolve_longest_segment_prefix [of ?T]
  from n have "\<forall>e \<in> set ?T. \<not> segment_prefix (prefix e) ''/ab''"
    by simp
  with t [of "''/ab''", THEN conjunct2, THEN conjunct2, THEN conjunct1]
  have nf: "Resolve ?T ''/ab'' = Inl NotFound"
    by (rule mp)
  from m have "\<exists>e \<in> set ?T. segment_prefix (prefix e) ''/a/b/c''"
    by simp
  with t [of "''/a/b/c''", THEN conjunct2, THEN conjunct1]
  obtain p rel where r: "Resolve ?T ''/a/b/c'' = Inr (p, rel)"
    by blast
  with t [of "''/a/b/c''", THEN conjunct1] m
  have "p = 2 \<and> rel = ''/c''"
    by (auto simp: segment_prefix_def)
  with r m n nf show ?thesis by simp
qed

subsection \<open>Mount\<close>

text \<open>
  C4. \<open>Mount\<close> on a prefix that is mounted exactly fails with \<open>AlreadyExists\<close> and
  returns the table it was given. In particular, after a \<open>Mount\<close> that succeeded, a
  second \<open>Mount\<close> on the same prefix, whatever its other arguments, fails so, and the
  table still has the one entry of the first mount for that prefix.
\<close>

theorem Mount_duplicate_prefix:
  "(pre \<in> set (map prefix table)
      \<longrightarrow> Mount construct table pre providerSpec cfg now = (Inl AlreadyExists, table))
   \<and> (\<forall>mid table1.
        Mount construct table pre spec1 cfg1 t1 = (Inr mid, table1)
        \<longrightarrow> Mount construct2 table1 pre spec2 cfg2 t2 = (Inl AlreadyExists, table1)
            \<and> (\<exists>p. construct pre cfg1 spec1 = Inr p
                  \<and> table1 = table @ [\<lparr>prefix = pre, provider = p, config = cfg1, mountedAt = t1\<rparr>]
                  \<and> filter (\<lambda>e. prefix e = pre) table1
                      = [\<lparr>prefix = pre, provider = p, config = cfg1, mountedAt = t1\<rparr>]))"
proof (intro conjI allI impI)
  assume "pre \<in> set (map prefix table)"
  then show "Mount construct table pre providerSpec cfg now = (Inl AlreadyExists, table)"
    by (simp add: Mount_def)
next
  fix mid table1
  assume m: "Mount construct table pre spec1 cfg1 t1 = (Inr mid, table1)"
  then have fresh: "pre \<notin> set (map prefix table)"
    by (auto simp: Mount_def split: if_splits)
  with m obtain p where p: "construct pre cfg1 spec1 = Inr p"
    and t: "table1 = table @ [\<lparr>prefix = pre, provider = p, config = cfg1, mountedAt = t1\<rparr>]"
    by (auto simp: Mount_def split: sum.splits)
  from t show "Mount construct2 table1 pre spec2 cfg2 t2 = (Inl AlreadyExists, table1)"
    by (simp add: Mount_def)
  from fresh have "filter (\<lambda>e. prefix e = pre) table = []"
    by (auto simp: filter_empty_conv)
  with p t show "\<exists>p. construct pre cfg1 spec1 = Inr p
      \<and> table1 = table @ [\<lparr>prefix = pre, provider = p, config = cfg1, mountedAt = t1\<rparr>]
      \<and> filter (\<lambda>e. prefix e = pre) table1
          = [\<lparr>prefix = pre, provider = p, config = cfg1, mountedAt = t1\<rparr>]"
    by simp
qed

theorem Mount_duplicate_prefix_witness:
  "Mount (\<lambda>pre cfg spec. Inr spec) [] ''/dup'' (1 :: nat) () 10
     = (Inr ''/dup'', [\<lparr>prefix = ''/dup'', provider = 1, config = (), mountedAt = 10\<rparr>])
   \<and> ''/dup'' \<in> set (map prefix [\<lparr>prefix = ''/dup'', provider = 1 :: nat, config = (), mountedAt = 10\<rparr>])
   \<and> Mount (\<lambda>pre cfg spec. Inr spec)
        [\<lparr>prefix = ''/dup'', provider = 1 :: nat, config = (), mountedAt = 10\<rparr>] ''/dup'' 2 () 20
       = (Inl AlreadyExists, [\<lparr>prefix = ''/dup'', provider = 1, config = (), mountedAt = 10\<rparr>])"
proof -
  let ?c = "\<lambda>(pre :: string) (cfg :: unit) (spec :: nat). Inr spec :: fs_error + nat"
  let ?T1 = "[\<lparr>prefix = ''/dup'', provider = 1 :: nat, config = (), mountedAt = 10 :: nat\<rparr>]"
  have m: "Mount ?c [] ''/dup'' 1 () 10 = (Inr ''/dup'', ?T1)"
    by (simp add: Mount_def)
  have d: "''/dup'' \<in> set (map prefix ?T1)"
    by simp
  from Mount_duplicate_prefix [of "''/dup''" "[]" ?c _ _ _ 1 "()" 10 ?c 2 "()" 20,
      THEN conjunct2, THEN spec, THEN spec, THEN mp, OF m]
  have "Mount ?c ?T1 ''/dup'' 2 () 20 = (Inl AlreadyExists, ?T1)"
    by blast
  with m d show ?thesis by blast
qed

subsection \<open>The capability gate\<close>

lemma host_calls_Cons:
  "host_calls service inst ((name, req) # calls) w =
     (fst (host_call service inst name req w)
        # fst (host_calls service inst calls (snd (host_call service inst name req w))),
      snd (host_calls service inst calls (snd (host_call service inst name req w))))"
  by (simp add: case_prod_beta)

lemma host_call_denied:
  "name \<notin> capabilities inst \<Longrightarrow> host_call service inst name req w = (Inl PermissionDenied, w)"
  by (simp add: host_call_def)

lemma host_calls_denied:
  "i < length calls \<Longrightarrow> fst (calls ! i) \<notin> capabilities inst
    \<Longrightarrow> fst (host_calls service inst calls w) ! i = Inl PermissionDenied"
proof (induction calls arbitrary: i w)
  case Nil
  then show ?case by simp
next
  case (Cons c calls)
  obtain name req where c: "c = (name, req)" by (cases c)
  show ?case
  proof (cases i)
    case 0
    with Cons.prems c show ?thesis
      by (simp add: host_calls_Cons host_call_denied del: host_calls.simps)
  next
    case (Suc j)
    with Cons.prems have "j < length calls" and "fst (calls ! j) \<notin> capabilities inst"
      by simp_all
    then have "fst (host_calls service inst calls w') ! j = Inl PermissionDenied" for w'
      by (rule Cons.IH)
    with Suc c show ?thesis
      by (simp add: host_calls_Cons del: host_calls.simps)
  qed
qed

lemma host_calls_world:
  "snd (host_calls service inst calls w)
     = snd (host_calls service inst (filter (\<lambda>c. fst c \<in> capabilities inst) calls) w)"
proof (induction calls arbitrary: w)
  case Nil
  then show ?case by simp
next
  case (Cons c calls)
  obtain name req where c: "c = (name, req)" by (cases c)
  show ?case
  proof (cases "name \<in> capabilities inst")
    case True
    then show ?thesis
      using Cons.IH by (simp add: c host_calls_Cons del: host_calls.simps)
  next
    case False
    then show ?thesis
      using Cons.IH [of w] by (simp add: c host_calls_Cons host_call_denied del: host_calls.simps)
  qed
qed

lemma mock_sink_observes:
  "fst ` set (snd (host_calls mock_sink inst calls sink)) \<subseteq> fst ` set sink \<union> capabilities inst"
proof (induction calls arbitrary: sink)
  case Nil
  then show ?case by simp
next
  case (Cons c calls)
  obtain name req where c: "c = (name, req)" by (cases c)
  show ?case
  proof (cases "name \<in> capabilities inst")
    case True
    then have step: "snd (host_call mock_sink inst name req sink) = sink @ [(name, req)]"
      by (simp add: host_call_def mock_sink_def)
    have "fst ` set (snd (host_calls mock_sink inst calls (sink @ [(name, req)])))
        \<subseteq> fst ` set (sink @ [(name, req)]) \<union> capabilities inst"
      by (rule Cons.IH)
    with True have "fst ` set (snd (host_calls mock_sink inst calls (sink @ [(name, req)])))
        \<subseteq> fst ` set sink \<union> capabilities inst"
      by auto
    then show ?thesis
      by (simp add: c host_calls_Cons step del: host_calls.simps)
  next
    case False
    then show ?thesis
      using Cons.IH [of sink] by (simp add: c host_calls_Cons host_call_denied del: host_calls.simps)
  qed
qed

text \<open>
  C3. A call of a host service whose name is not in the capability set of the calling
  instance returns \<open>PermissionDenied\<close> and leaves the world as it was, whatever the
  service would do. This holds for every invocation in a run of invocations: each
  ungranted one is answered \<open>PermissionDenied\<close>, the world after the run is the world
  after the granted invocations alone, and a mock sink observes calls of granted
  services only.
\<close>

theorem ungranted_call_is_denied:
  "(name \<notin> capabilities inst
      \<longrightarrow> host_call service inst name req w = (Inl PermissionDenied, w))
   \<and> (\<forall>i < length calls. fst (calls ! i) \<notin> capabilities inst
        \<longrightarrow> fst (host_calls service inst calls w) ! i = Inl PermissionDenied)
   \<and> snd (host_calls service inst calls w)
       = snd (host_calls service inst (filter (\<lambda>c. fst c \<in> capabilities inst) calls) w)
   \<and> fst ` set (snd (host_calls mock_sink inst calls sink))
       \<subseteq> fst ` set sink \<union> capabilities inst"
proof (intro conjI allI impI)
  assume "name \<notin> capabilities inst"
  then show "host_call service inst name req w = (Inl PermissionDenied, w)"
    by (simp add: host_call_def)
next
  fix i
  assume "i < length calls" and "fst (calls ! i) \<notin> capabilities inst"
  then show "fst (host_calls service inst calls w) ! i = Inl PermissionDenied"
    by (rule host_calls_denied)
next
  show "snd (host_calls service inst calls w)
       = snd (host_calls service inst (filter (\<lambda>c. fst c \<in> capabilities inst) calls) w)"
    by (rule host_calls_world)
next
  show "fst ` set (snd (host_calls mock_sink inst calls sink))
       \<subseteq> fst ` set sink \<union> capabilities inst"
    by (rule mock_sink_observes)
qed

theorem ungranted_call_is_denied_witness:
  "''host.http'' \<notin> capabilities
       \<lparr>module_code = (), memory = [], capabilities = {''host.fs''}, state = Ready\<rparr>
   \<and> host_call mock_sink
        \<lparr>module_code = (), memory = [], capabilities = {''host.fs''}, state = Ready\<rparr>
        ''host.http'' ''GET'' []
       = (Inl PermissionDenied, [])
   \<and> host_calls mock_sink
        \<lparr>module_code = (), memory = [], capabilities = {''host.fs''}, state = Ready\<rparr>
        [(''host.http'', ''GET''), (''host.fs'', ''read''), (''host.http'', ''POST'')] []
       = ([Inl PermissionDenied, Inr (), Inl PermissionDenied], [(''host.fs'', ''read'')])"
proof -
  let ?inst = "\<lparr>module_code = (), memory = [], capabilities = {''host.fs''}, state = Ready\<rparr>"
  have h: "''host.http'' \<notin> capabilities ?inst"
    by simp
  from ungranted_call_is_denied [of "''host.http''" ?inst mock_sink "''GET''" "[]",
      THEN conjunct1, THEN mp, OF h]
  have d: "host_call mock_sink ?inst ''host.http'' ''GET'' [] = (Inl PermissionDenied, [])" .
  have r: "host_calls mock_sink ?inst
        [(''host.http'', ''GET''), (''host.fs'', ''read''), (''host.http'', ''POST'')] []
       = ([Inl PermissionDenied, Inr (), Inl PermissionDenied], [(''host.fs'', ''read'')])"
    by (simp add: host_call_def mock_sink_def)
  from h d r show ?thesis by blast
qed

end
